theory Spec2Isabelle
  imports Main "HOL-Library.Word"
begin

section \<open>Memory model\<close>

text \<open>
  The allocator of \<^verbatim>\<open>buffer.c\<close> works on caller-owned storage through pointers, and a
  descriptor handed out by the pool is later changed through another pointer to the same
  object. The model therefore keeps an explicit store. Descriptors, pools and contexts live
  in a heap each, indexed by natural numbers; a pointer to one is \<open>None\<close> for \<^verbatim>\<open>NULL\<close>
  and \<open>Some a\<close> for the object at index \<open>a\<close>. An array of descriptors is a run of
  consecutive indices, so \<^verbatim>\<open>&array[i]\<close> is the base index plus \<open>i\<close>.

  \<^verbatim>\<open>size_t\<close> is a 64-bit word whose arithmetic wraps. A byte pointer (\<^verbatim>\<open>uint8_t *\<close>) is
  \<open>None\<close> for \<^verbatim>\<open>NULL\<close> and \<open>Some a\<close> for the machine address \<open>a\<close>; the addresses of the
  machine are those from 1 to \<open>2 ^ 64 - 1\<close>, and indexing a byte pointer wraps around at
  \<open>2 ^ 64\<close>, where address 0 is \<^verbatim>\<open>NULL\<close>.

  A \<^verbatim>\<open>size_t *\<close> can address a \<^verbatim>\<open>size_t\<close> object of its own or any \<^verbatim>\<open>size_t\<close> member of a
  descriptor, a pool or a context. The flag \<^verbatim>\<open>is_available\<close> is \<^verbatim>\<open>volatile\<close> in the
  source; the model is sequential and runs each call to completion.
\<close>

type_synonym size_t = "64 word"

type_synonym u8_ptr = "nat option"
type_synonym buffer_ptr = "nat option"
type_synonym ctx_ptr = "nat option"

text \<open>
  A pool object is either a stand-alone \<^verbatim>\<open>buffer_pool_st\<close> or the member
  \<^verbatim>\<open>pool_s\<close> embedded in a context (\<^verbatim>\<open>&ctx_sp->pool_s\<close>).
\<close>

datatype pool_loc = PoolObj nat | CtxPool nat

type_synonym pool_ptr = "pool_loc option"

text \<open>
  What a \<^verbatim>\<open>size_t *\<close> can point to: a \<^verbatim>\<open>size_t\<close> object of its own, the member
  \<^verbatim>\<open>capacity_bytes\<close> of a descriptor, \<^verbatim>\<open>buffer_count\<close> of a pool, or \<^verbatim>\<open>buffer_count\<close>
  or \<^verbatim>\<open>buffer_size\<close> of a context.
\<close>

datatype size_loc =
    SizeObj nat
  | BufferCapacity nat
  | PoolCount pool_loc
  | CtxCount nat
  | CtxSize nat

type_synonym size_ptr = "size_loc option"

record buffer_st =
  data_u8p :: u8_ptr
  capacity_bytes :: size_t
  is_available :: bool
  is_initialized :: bool

record buffer_pool_st =
  pool_buffer_array_sa :: buffer_ptr
  pool_buffer_count :: size_t
  pool_is_initialized :: bool

record buffer_array_ctx_st =
  pool_s :: buffer_pool_st
  ctx_buffer_array_sa :: buffer_ptr
  memory_block_u8p :: u8_ptr
  ctx_buffer_count :: size_t
  buffer_size :: size_t
  ctx_is_initialized :: bool

record memory =
  buffers :: "nat \<Rightarrow> buffer_st"
  sizes :: "nat \<Rightarrow> size_t"
  pools :: "nat \<Rightarrow> buffer_pool_st"
  ctxs :: "nat \<Rightarrow> buffer_array_ctx_st"

text \<open>\<^verbatim>\<open>&array[index]\<close> for a descriptor array.\<close>

definition elem_ptr :: "buffer_ptr \<Rightarrow> size_t \<Rightarrow> buffer_ptr" where
  "elem_ptr base index = (case base of None \<Rightarrow> None | Some b \<Rightarrow> Some (b + unat index))"

text \<open>
  \<^verbatim>\<open>&block[offset]\<close> for a byte block: the address is the sum modulo \<open>2 ^ 64\<close>, and the
  pointer is \<^verbatim>\<open>NULL\<close> when that is 0.
\<close>

definition byte_ptr :: "u8_ptr \<Rightarrow> size_t \<Rightarrow> u8_ptr" where
  "byte_ptr base offset =
     (case base of
        None \<Rightarrow> None
      | Some a \<Rightarrow>
          if (a + unat offset) mod 2 ^ 64 = 0 then None
          else Some ((a + unat offset) mod 2 ^ 64))"

fun read_pool :: "memory \<Rightarrow> pool_loc \<Rightarrow> buffer_pool_st" where
  "read_pool m (PoolObj a) = pools m a"
| "read_pool m (CtxPool c) = pool_s (ctxs m c)"

fun write_pool :: "pool_loc \<Rightarrow> buffer_pool_st \<Rightarrow> memory \<Rightarrow> memory" where
  "write_pool (PoolObj a) p m = m\<lparr>pools := (pools m)(a := p)\<rparr>"
| "write_pool (CtxPool c) p m = m\<lparr>ctxs := (ctxs m)(c := (ctxs m c)\<lparr>pool_s := p\<rparr>)\<rparr>"

text \<open>The store \<^verbatim>\<open>*p = v\<close> through a \<^verbatim>\<open>size_t *\<close>.\<close>

fun write_size :: "size_loc \<Rightarrow> size_t \<Rightarrow> memory \<Rightarrow> memory" where
  "write_size (SizeObj out) v m = m\<lparr>sizes := (sizes m)(out := v)\<rparr>"
| "write_size (BufferCapacity a) v m =
     m\<lparr>buffers := (buffers m)(a := (buffers m a)\<lparr>capacity_bytes := v\<rparr>)\<rparr>"
| "write_size (PoolCount l) v m = write_pool l ((read_pool m l)\<lparr>pool_buffer_count := v\<rparr>) m"
| "write_size (CtxCount c) v m =
     m\<lparr>ctxs := (ctxs m)(c := (ctxs m c)\<lparr>ctx_buffer_count := v\<rparr>)\<rparr>"
| "write_size (CtxSize c) v m =
     m\<lparr>ctxs := (ctxs m)(c := (ctxs m c)\<lparr>buffer_size := v\<rparr>)\<rparr>"

definition set_available :: "nat \<Rightarrow> bool \<Rightarrow> memory \<Rightarrow> memory" where
  "set_available a v m = m\<lparr>buffers := (buffers m)(a := (buffers m a)\<lparr>is_available := v\<rparr>)\<rparr>"

section \<open>Static helpers\<close>

definition buffer_is_valid :: "memory \<Rightarrow> buffer_ptr \<Rightarrow> bool" where
  "buffer_is_valid m buffer_csp =
     (case buffer_csp of None \<Rightarrow> False | Some a \<Rightarrow> is_initialized (buffers m a))"

definition buffer_pool_is_valid :: "memory \<Rightarrow> pool_ptr \<Rightarrow> bool" where
  "buffer_pool_is_valid m pool_csp =
     (case pool_csp of
        None \<Rightarrow> False
      | Some l \<Rightarrow> pool_is_initialized (read_pool m l)
                 \<and> pool_buffer_array_sa (read_pool m l) \<noteq> None
                 \<and> 0 < pool_buffer_count (read_pool m l))"

section \<open>Single buffer API\<close>

definition buffer_init :: "buffer_ptr \<Rightarrow> u8_ptr \<Rightarrow> size_t \<Rightarrow> memory \<Rightarrow> memory" where
  "buffer_init buffer_sp memory_u8p capacity m =
     (case buffer_sp of
        None \<Rightarrow> m
      | Some a \<Rightarrow>
          m\<lparr>buffers := (buffers m)(a := (buffers m a)
              \<lparr>data_u8p := memory_u8p,
               capacity_bytes := capacity,
               is_initialized := True,
               is_available := (memory_u8p \<noteq> None \<and> capacity \<noteq> 0)\<rparr>)\<rparr>)"

text \<open>
  \<^verbatim>\<open>buffer_data\<close> first writes the capacity (or 0) through the optional out-pointer,
  then returns the backing pointer (or \<^verbatim>\<open>NULL\<close>).
\<close>

definition buffer_data :: "buffer_ptr \<Rightarrow> size_ptr \<Rightarrow> memory \<Rightarrow> u8_ptr \<times> memory" where
  "buffer_data buffer_csp capacity_bytes_out_p m =
     (let m' = (case capacity_bytes_out_p of
                  None \<Rightarrow> m
                | Some out \<Rightarrow>
                    if buffer_is_valid m buffer_csp
                    then write_size out (capacity_bytes (buffers m (the buffer_csp))) m
                    else write_size out 0 m)
      in if buffer_is_valid m' buffer_csp then (data_u8p (buffers m' (the buffer_csp)), m')
         else (None, m'))"

definition buffer_mark_free :: "buffer_ptr \<Rightarrow> memory \<Rightarrow> memory" where
  "buffer_mark_free buffer_sp m =
     (if buffer_is_valid m buffer_sp then set_available (the buffer_sp) True m else m)"

definition buffer_mark_in_use :: "buffer_ptr \<Rightarrow> memory \<Rightarrow> memory" where
  "buffer_mark_in_use buffer_sp m =
     (if buffer_is_valid m buffer_sp then set_available (the buffer_sp) False m else m)"

section \<open>Pool API\<close>

definition buffer_pool_init :: "pool_ptr \<Rightarrow> buffer_ptr \<Rightarrow> size_t \<Rightarrow> memory \<Rightarrow> memory" where
  "buffer_pool_init pool_sp buffer_array_sa buffer_count m =
     (case pool_sp of
        None \<Rightarrow> m
      | Some l \<Rightarrow>
          if buffer_array_sa = None \<or> buffer_count = 0 then m
          else write_pool l ((read_pool m l)
                 \<lparr>pool_buffer_array_sa := buffer_array_sa,
                  pool_buffer_count := buffer_count,
                  pool_is_initialized := True\<rparr>) m)"

text \<open>
  The loop counter is a \<^verbatim>\<open>size_t\<close>; below the bound its increment does not wrap, which
  is what makes the three scans terminate.
\<close>

lemma index_step_measure:
  fixes index cnt :: size_t
  assumes "index < cnt"
  shows "unat cnt - unat (index + 1) < unat cnt - unat index"
proof -
  from assms have "index + 1 \<noteq> 0"
    by (metis max_word_wrap word_order.extremum_strict)
  then have "unat (index + 1) = Suc (unat index)"
    by (simp add: unatSuc add.commute)
  with assms show ?thesis
    by (simp add: word_less_nat_alt)
qed

lemma read_pool_set_available [simp]: "read_pool (set_available a v m) l = read_pool m l"
  by (cases l) (simp_all add: set_available_def)

text \<open>
  The \<^verbatim>\<open>for\<close> loop of \<^verbatim>\<open>buffer_pool_acquire\<close>, from \<open>index\<close> on. The pool's fields
  are read at every iteration, as the source does. The loops run only behind
  \<^verbatim>\<open>buffer_pool_is_valid\<close>, so the array pointer they index is not \<^verbatim>\<open>NULL\<close>.
\<close>

function acquire_loop :: "pool_loc \<Rightarrow> size_t \<Rightarrow> memory \<Rightarrow> buffer_ptr \<times> memory" where
  "acquire_loop l index m =
     (if index < pool_buffer_count (read_pool m l) then
        (let current_sp = elem_ptr (pool_buffer_array_sa (read_pool m l)) index in
         if buffer_is_valid m current_sp \<and> is_available (buffers m (the current_sp))
         then (current_sp, set_available (the current_sp) False m)
         else acquire_loop l (index + 1) m)
      else (None, m))"
  by pat_completeness auto
termination
  by (relation "measure (\<lambda>(l, index, m). unat (pool_buffer_count (read_pool m l)) - unat index)")
     (simp_all add: index_step_measure)

declare acquire_loop.simps [simp del]

definition buffer_pool_acquire :: "pool_ptr \<Rightarrow> memory \<Rightarrow> buffer_ptr \<times> memory" where
  "buffer_pool_acquire pool_sp m =
     (if \<not> buffer_pool_is_valid m pool_sp then (None, m)
      else acquire_loop (the pool_sp) 0 m)"

function find_loop :: "pool_loc \<Rightarrow> u8_ptr \<Rightarrow> size_t \<Rightarrow> memory \<Rightarrow> buffer_ptr" where
  "find_loop l memory_u8p index m =
     (if index < pool_buffer_count (read_pool m l) then
        (let current_sp = elem_ptr (pool_buffer_array_sa (read_pool m l)) index in
         if buffer_is_valid m current_sp \<and> data_u8p (buffers m (the current_sp)) = memory_u8p
         then current_sp
         else find_loop l memory_u8p (index + 1) m)
      else None)"
  by pat_completeness auto
termination
  by (relation "measure (\<lambda>(l, p, index, m). unat (pool_buffer_count (read_pool m l)) - unat index)")
     (simp_all add: index_step_measure)

declare find_loop.simps [simp del]

definition buffer_pool_find :: "pool_ptr \<Rightarrow> u8_ptr \<Rightarrow> memory \<Rightarrow> buffer_ptr" where
  "buffer_pool_find pool_sp memory_u8p m =
     (if \<not> buffer_pool_is_valid m pool_sp \<or> memory_u8p = None then None
      else find_loop (the pool_sp) memory_u8p 0 m)"

definition buffer_pool_release_by_ptr :: "pool_ptr \<Rightarrow> u8_ptr \<Rightarrow> memory \<Rightarrow> bool \<times> memory" where
  "buffer_pool_release_by_ptr pool_sp memory_u8p m =
     (let buffer_sp = buffer_pool_find pool_sp memory_u8p m in
      if buffer_sp = None then (False, m)
      else (True, buffer_mark_free buffer_sp m))"

function mark_all_free_loop :: "pool_loc \<Rightarrow> size_t \<Rightarrow> memory \<Rightarrow> memory" where
  "mark_all_free_loop l index m =
     (if index < pool_buffer_count (read_pool m l) then
        (let current_sp = elem_ptr (pool_buffer_array_sa (read_pool m l)) index in
         if buffer_is_valid m current_sp
         then mark_all_free_loop l (index + 1) (set_available (the current_sp) True m)
         else mark_all_free_loop l (index + 1) m)
      else m)"
  by pat_completeness auto
termination
  by (relation "measure (\<lambda>(l, index, m). unat (pool_buffer_count (read_pool m l)) - unat index)")
     (simp_all add: index_step_measure)

declare mark_all_free_loop.simps [simp del]

definition buffer_pool_mark_all_free :: "pool_ptr \<Rightarrow> memory \<Rightarrow> memory" where
  "buffer_pool_mark_all_free pool_sp m =
     (if \<not> buffer_pool_is_valid m pool_sp then m
      else mark_all_free_loop (the pool_sp) 0 m)"

section \<open>Buffer array context API\<close>

text \<open>
  The \<^verbatim>\<open>for\<close> loop of \<^verbatim>\<open>buffer_array_ctx_init\<close>. Its bound and operands are the
  function's arguments, not memory.
\<close>

function ctx_init_loop :: "buffer_ptr \<Rightarrow> u8_ptr \<Rightarrow> size_t \<Rightarrow> size_t \<Rightarrow> size_t \<Rightarrow> memory \<Rightarrow> memory" where
  "ctx_init_loop buffer_array_sa memory_block buffer_count buffer_sz index m =
     (if index < buffer_count then
        (let chunk_u8p = byte_ptr memory_block (index * buffer_sz) in
         ctx_init_loop buffer_array_sa memory_block buffer_count buffer_sz (index + 1)
           (buffer_init (elem_ptr buffer_array_sa index) chunk_u8p buffer_sz m))
      else m)"
  by pat_completeness auto
termination
  by (relation "measure (\<lambda>(arr, blk, cnt, sz, index, m). unat cnt - unat index)")
     (simp_all add: index_step_measure)

declare ctx_init_loop.simps [simp del]

definition buffer_array_ctx_init ::
  "ctx_ptr \<Rightarrow> buffer_ptr \<Rightarrow> u8_ptr \<Rightarrow> size_t \<Rightarrow> size_t \<Rightarrow> memory \<Rightarrow> memory" where
  "buffer_array_ctx_init ctx_sp buffer_array_sa memory_block buffer_count buffer_sz m =
     (case ctx_sp of
        None \<Rightarrow> m
      | Some c \<Rightarrow>
          if buffer_array_sa = None \<or> memory_block = None \<or> buffer_count = 0 \<or> buffer_sz = 0
          then m
          else
            (let m1 = m\<lparr>ctxs := (ctxs m)(c := (ctxs m c)
                         \<lparr>ctx_buffer_array_sa := buffer_array_sa,
                          memory_block_u8p := memory_block,
                          ctx_buffer_count := buffer_count,
                          buffer_size := buffer_sz\<rparr>)\<rparr>;
                 m2 = ctx_init_loop buffer_array_sa memory_block buffer_count buffer_sz 0 m1;
                 m3 = buffer_pool_init (Some (CtxPool c)) buffer_array_sa buffer_count m2
             in m3\<lparr>ctxs := (ctxs m3)(c := (ctxs m3 c)\<lparr>ctx_is_initialized := True\<rparr>)\<rparr>))"

definition buffer_array_acquire :: "ctx_ptr \<Rightarrow> memory \<Rightarrow> buffer_ptr \<times> memory" where
  "buffer_array_acquire ctx_sp m =
     (case ctx_sp of
        None \<Rightarrow> (None, m)
      | Some c \<Rightarrow>
          if \<not> ctx_is_initialized (ctxs m c) then (None, m)
          else buffer_pool_acquire (Some (CtxPool c)) m)"

definition buffer_array_find_by_ptr :: "ctx_ptr \<Rightarrow> u8_ptr \<Rightarrow> memory \<Rightarrow> buffer_ptr" where
  "buffer_array_find_by_ptr ctx_sp memory_u8p m =
     (case ctx_sp of
        None \<Rightarrow> None
      | Some c \<Rightarrow>
          if \<not> ctx_is_initialized (ctxs m c) then None
          else buffer_pool_find (Some (CtxPool c)) memory_u8p m)"

definition buffer_array_release_by_ptr :: "ctx_ptr \<Rightarrow> u8_ptr \<Rightarrow> memory \<Rightarrow> bool \<times> memory" where
  "buffer_array_release_by_ptr ctx_sp memory_u8p m =
     (case ctx_sp of
        None \<Rightarrow> (False, m)
      | Some c \<Rightarrow>
          if \<not> ctx_is_initialized (ctxs m c) then (False, m)
          else buffer_pool_release_by_ptr (Some (CtxPool c)) memory_u8p m)"

section \<open>Client traces\<close>

text \<open>
  A client of the module is a sequence of calls of its public functions. \<open>exec\<close> runs one
  call and gives what it returns together with the memory it leaves.
\<close>

datatype call =
    BufferInit buffer_ptr u8_ptr size_t
  | BufferData buffer_ptr size_ptr
  | BufferMarkFree buffer_ptr
  | BufferMarkInUse buffer_ptr
  | PoolInit pool_ptr buffer_ptr size_t
  | PoolAcquire pool_ptr
  | PoolFind pool_ptr u8_ptr
  | PoolReleaseByPtr pool_ptr u8_ptr
  | PoolMarkAllFree pool_ptr
  | ArrayCtxInit ctx_ptr buffer_ptr u8_ptr size_t size_t
  | ArrayAcquire ctx_ptr
  | ArrayFindByPtr ctx_ptr u8_ptr
  | ArrayReleaseByPtr ctx_ptr u8_ptr

datatype result = RetVoid | RetBuffer buffer_ptr | RetData u8_ptr | RetBool bool

fun exec :: "call \<Rightarrow> memory \<Rightarrow> result \<times> memory" where
  "exec (BufferInit b p n) m = (RetVoid, buffer_init b p n m)"
| "exec (BufferData b out) m = (RetData (fst (buffer_data b out m)), snd (buffer_data b out m))"
| "exec (BufferMarkFree b) m = (RetVoid, buffer_mark_free b m)"
| "exec (BufferMarkInUse b) m = (RetVoid, buffer_mark_in_use b m)"
| "exec (PoolInit pl arr n) m = (RetVoid, buffer_pool_init pl arr n m)"
| "exec (PoolAcquire pl) m =
     (RetBuffer (fst (buffer_pool_acquire pl m)), snd (buffer_pool_acquire pl m))"
| "exec (PoolFind pl p) m = (RetBuffer (buffer_pool_find pl p m), m)"
| "exec (PoolReleaseByPtr pl p) m =
     (RetBool (fst (buffer_pool_release_by_ptr pl p m)), snd (buffer_pool_release_by_ptr pl p m))"
| "exec (PoolMarkAllFree pl) m = (RetVoid, buffer_pool_mark_all_free pl m)"
| "exec (ArrayCtxInit c arr blk n sz) m = (RetVoid, buffer_array_ctx_init c arr blk n sz m)"
| "exec (ArrayAcquire c) m =
     (RetBuffer (fst (buffer_array_acquire c m)), snd (buffer_array_acquire c m))"
| "exec (ArrayFindByPtr c p) m = (RetBuffer (buffer_array_find_by_ptr c p m), m)"
| "exec (ArrayReleaseByPtr c p) m =
     (RetBool (fst (buffer_array_release_by_ptr c p m)), snd (buffer_array_release_by_ptr c p m))"

fun run :: "call list \<Rightarrow> memory \<Rightarrow> memory" where
  "run [] m = m"
| "run (c # cs) m = run cs (snd (exec c m))"

text \<open>The two calls that (re-)initialize descriptors.\<close>

fun inits_descriptors :: "call \<Rightarrow> bool" where
  "inits_descriptors (BufferInit b p n) = True"
| "inits_descriptors (ArrayCtxInit c arr blk n sz) = True"
| "inits_descriptors _ = False"

fun is_acquire :: "call \<Rightarrow> bool" where
  "is_acquire (PoolAcquire pl) = True"
| "is_acquire (ArrayAcquire c) = True"
| "is_acquire _ = False"

text \<open>
  \<open>frees p a c\<close>: the call \<open>c\<close> is an explicit free of the descriptor at \<open>a\<close>, whose backing
  pointer is \<open>p\<close>: a \<^verbatim>\<open>mark_free\<close> on it, a release by its backing pointer, or a
  \<^verbatim>\<open>mark_all_free\<close>.
\<close>

fun frees :: "u8_ptr \<Rightarrow> nat \<Rightarrow> call \<Rightarrow> bool" where
  "frees p a (BufferMarkFree b) = (b = Some a)"
| "frees p a (PoolReleaseByPtr pl q) = (q = p)"
| "frees p a (ArrayReleaseByPtr c q) = (q = p)"
| "frees p a (PoolMarkAllFree pl) = True"
| "frees p a _ = False"

text \<open>
  \<open>writes_capacity a c\<close>: the call \<open>c\<close> is a \<^verbatim>\<open>buffer_data\<close> whose out-pointer addresses
  the member \<^verbatim>\<open>capacity_bytes\<close> of the descriptor at \<open>a\<close>.
\<close>

fun writes_capacity :: "nat \<Rightarrow> call \<Rightarrow> bool" where
  "writes_capacity a (BufferData b out) = (out = Some (BufferCapacity a))"
| "writes_capacity a _ = False"

text \<open>\<open>n\<close> consecutive calls of \<^verbatim>\<open>buffer_pool_acquire\<close> on one pool, with their results in order.\<close>

fun acquire_n :: "nat \<Rightarrow> pool_ptr \<Rightarrow> memory \<Rightarrow> buffer_ptr list \<times> memory" where
  "acquire_n 0 pl m = ([], m)"
| "acquire_n (Suc n) pl m =
     (let r = buffer_pool_acquire pl m; rest = acquire_n n pl (snd r)
      in (fst r # fst rest, snd rest))"

section \<open>Example memories\<close>

text \<open>Static storage before any call: every object is zero.\<close>

definition zero_buffer :: buffer_st where
  "zero_buffer =
     \<lparr>data_u8p = None, capacity_bytes = 0, is_available = False, is_initialized = False\<rparr>"

definition zero_pool :: buffer_pool_st where
  "zero_pool =
     \<lparr>pool_buffer_array_sa = None, pool_buffer_count = 0, pool_is_initialized = False\<rparr>"

definition zero_ctx :: buffer_array_ctx_st where
  "zero_ctx =
     \<lparr>pool_s = zero_pool, ctx_buffer_array_sa = None, memory_block_u8p = None,
      ctx_buffer_count = 0, buffer_size = 0, ctx_is_initialized = False\<rparr>"

definition zero_memory :: memory where
  "zero_memory =
     \<lparr>buffers = (\<lambda>_. zero_buffer), sizes = (\<lambda>_. 0), pools = (\<lambda>_. zero_pool),
      ctxs = (\<lambda>_. zero_ctx)\<rparr>"

text \<open>
  A pool (object 0) over the two descriptors 0 and 1, with 8-byte chunks at the byte
  addresses 100 and 108; descriptor 0 is in use and descriptor 1 is free.
\<close>

definition pair_memory :: memory where
  "pair_memory =
     zero_memory
     \<lparr>buffers := (\<lambda>_. zero_buffer)
        (0 := \<lparr>data_u8p = Some 100, capacity_bytes = 8, is_available = False,
               is_initialized = True\<rparr>,
         1 := \<lparr>data_u8p = Some 108, capacity_bytes = 8, is_available = True,
               is_initialized = True\<rparr>),
      pools := (\<lambda>_. zero_pool)
        (0 := \<lparr>pool_buffer_array_sa = Some 0, pool_buffer_count = 2,
               pool_is_initialized = True\<rparr>)\<rparr>"

text \<open>
  A pool (object 0) over the three descriptors 0, 1 and 2. Descriptors 1 and 2 are bound to
  the same byte address 200; descriptor 1 is in use, the other two are free.
\<close>

definition twin_memory :: memory where
  "twin_memory =
     zero_memory
     \<lparr>buffers := (\<lambda>_. zero_buffer)
        (0 := \<lparr>data_u8p = Some 100, capacity_bytes = 8, is_available = True,
               is_initialized = True\<rparr>,
         1 := \<lparr>data_u8p = Some 200, capacity_bytes = 8, is_available = False,
               is_initialized = True\<rparr>,
         2 := \<lparr>data_u8p = Some 200, capacity_bytes = 8, is_available = True,
               is_initialized = True\<rparr>),
      pools := (\<lambda>_. zero_pool)
        (0 := \<lparr>pool_buffer_array_sa = Some 0, pool_buffer_count = 3,
               pool_is_initialized = True\<rparr>)\<rparr>"

text \<open>
  An initialized context (object 0) whose pool covers the descriptors 0 to 3, bound to
  the four 64-byte chunks of a block at byte address 4096, all free.
\<close>

definition ring_memory :: memory where
  "ring_memory =
     zero_memory
     \<lparr>buffers := (\<lambda>i. if i < 4
          then \<lparr>data_u8p = Some (4096 + 64 * i), capacity_bytes = 64, is_available = True,
                is_initialized = True\<rparr>
          else zero_buffer),
      ctxs := (\<lambda>_. zero_ctx)
        (0 := \<lparr>pool_s = \<lparr>pool_buffer_array_sa = Some 0, pool_buffer_count = 4,
                         pool_is_initialized = True\<rparr>,
               ctx_buffer_array_sa = Some 0, memory_block_u8p = Some 4096,
               ctx_buffer_count = 4, buffer_size = 64, ctx_is_initialized = True\<rparr>)\<rparr>"

section \<open>Descriptor values up to availability\<close>

text \<open>
  \<open>same_binding x y\<close>: the descriptor values \<open>x\<close> and \<open>y\<close> agree on everything but the
  availability flag.
\<close>

definition same_binding :: "buffer_st \<Rightarrow> buffer_st \<Rightarrow> bool" where
  "same_binding x y =
     (data_u8p x = data_u8p y \<and> capacity_bytes x = capacity_bytes y
      \<and> is_initialized x = is_initialized y)"

section \<open>The scan of \<^verbatim>\<open>buffer_pool_acquire\<close>\<close>

lemma unat_index_Suc:
  fixes index cnt :: size_t
  assumes "index < cnt"
  shows "unat (index + 1) = Suc (unat index)"
proof -
  from assms have "index + 1 \<noteq> 0"
    by (metis max_word_wrap word_order.extremum_strict)
  then show ?thesis
    by (simp add: unatSuc add.commute)
qed

lemma buffers_set_available:
  "buffers (set_available a v m) x = (if x = a then (buffers m a)\<lparr>is_available := v\<rparr> else buffers m x)"
  by (simp add: set_available_def)

lemma acquire_loop_step:
  assumes "index < pool_buffer_count (read_pool m l)"
    and "pool_buffer_array_sa (read_pool m l) = Some b"
  shows "acquire_loop l index m =
     (if is_initialized (buffers m (b + unat index)) \<and> is_available (buffers m (b + unat index))
      then (Some (b + unat index), set_available (b + unat index) False m)
      else acquire_loop l (index + 1) m)"
  using assms by (subst acquire_loop.simps) (simp add: Let_def elem_ptr_def buffer_is_valid_def)

lemma acquire_loop_stop:
  assumes "\<not> index < pool_buffer_count (read_pool m l)"
  shows "acquire_loop l index m = (None, m)"
  using assms by (subst acquire_loop.simps) simp

lemma acquire_loop_first:
  assumes "pool_buffer_array_sa (read_pool m l) = Some b"
    and "unat index \<le> i" and "i < unat (pool_buffer_count (read_pool m l))"
    and "is_initialized (buffers m (b + i))" and "is_available (buffers m (b + i))"
    and "\<forall>j. unat index \<le> j \<and> j < i \<longrightarrow>
           \<not> (is_initialized (buffers m (b + j)) \<and> is_available (buffers m (b + j)))"
  shows "acquire_loop l index m = (Some (b + i), set_available (b + i) False m)"
  using assms(2,6)
proof (induction "i - unat index" arbitrary: index)
  case 0
  then have eq: "unat index = i" by simp
  with assms have lt: "index < pool_buffer_count (read_pool m l)"
    by (simp add: word_less_nat_alt)
  from assms eq show ?case
    by (simp add: acquire_loop_step [OF lt assms(1)])
next
  case (Suc d)
  then have less: "unat index < i" by simp
  with assms have lt: "index < pool_buffer_count (read_pool m l)"
    by (simp add: word_less_nat_alt)
  then have suc: "unat (index + 1) = Suc (unat index)" by (rule unat_index_Suc)
  from Suc.prems less have nofree:
    "\<not> (is_initialized (buffers m (b + unat index)) \<and> is_available (buffers m (b + unat index)))"
    by simp
  have "acquire_loop l (index + 1) m = (Some (b + i), set_available (b + i) False m)"
  proof (rule Suc.hyps(1))
    show "d = i - unat (index + 1)" using Suc.hyps(2) suc by simp
    show "unat (index + 1) \<le> i" using less suc by simp
    show "\<forall>j. unat (index + 1) \<le> j \<and> j < i \<longrightarrow>
           \<not> (is_initialized (buffers m (b + j)) \<and> is_available (buffers m (b + j)))"
      using Suc.prems suc by simp
  qed
  with nofree show ?case
    by (auto simp add: acquire_loop_step [OF lt assms(1)])
qed

lemma acquire_loop_none:
  assumes "pool_buffer_array_sa (read_pool m l) = Some b"
    and "\<forall>j. unat index \<le> j \<and> j < unat (pool_buffer_count (read_pool m l)) \<longrightarrow>
           \<not> (is_initialized (buffers m (b + j)) \<and> is_available (buffers m (b + j)))"
  shows "acquire_loop l index m = (None, m)"
  using assms(2)
proof (induction "unat (pool_buffer_count (read_pool m l)) - unat index" arbitrary: index)
  case 0
  then have "\<not> index < pool_buffer_count (read_pool m l)"
    by (simp add: word_less_nat_alt)
  then show ?case by (rule acquire_loop_stop)
next
  case (Suc d)
  then have lt: "index < pool_buffer_count (read_pool m l)"
    by (simp add: word_less_nat_alt)
  then have suc: "unat (index + 1) = Suc (unat index)" by (rule unat_index_Suc)
  from Suc.prems Suc.hyps(2) have nofree:
    "\<not> (is_initialized (buffers m (b + unat index)) \<and> is_available (buffers m (b + unat index)))"
    by simp
  have "acquire_loop l (index + 1) m = (None, m)"
  proof (rule Suc.hyps(1))
    show "d = unat (pool_buffer_count (read_pool m l)) - unat (index + 1)"
      using Suc.hyps(2) suc by simp
    show "\<forall>j. unat (index + 1) \<le> j \<and> j < unat (pool_buffer_count (read_pool m l)) \<longrightarrow>
           \<not> (is_initialized (buffers m (b + j)) \<and> is_available (buffers m (b + j)))"
      using Suc.prems suc by simp
  qed
  with nofree show ?case
    by (auto simp add: acquire_loop_step [OF lt assms(1)])
qed


section \<open>The scan of \<^verbatim>\<open>buffer_pool_find\<close>\<close>

lemma find_loop_step:
  assumes "index < pool_buffer_count (read_pool m l)"
    and "pool_buffer_array_sa (read_pool m l) = Some b"
  shows "find_loop l p index m =
     (if is_initialized (buffers m (b + unat index)) \<and> data_u8p (buffers m (b + unat index)) = p
      then Some (b + unat index)
      else find_loop l p (index + 1) m)"
  using assms by (subst find_loop.simps) (simp add: Let_def elem_ptr_def buffer_is_valid_def)

lemma find_loop_stop:
  assumes "\<not> index < pool_buffer_count (read_pool m l)"
  shows "find_loop l p index m = None"
  using assms by (subst find_loop.simps) simp

lemma find_loop_first:
  assumes "pool_buffer_array_sa (read_pool m l) = Some b"
    and "unat index \<le> i" and "i < unat (pool_buffer_count (read_pool m l))"
    and "is_initialized (buffers m (b + i))" and "data_u8p (buffers m (b + i)) = p"
    and "\<forall>j. unat index \<le> j \<and> j < i \<longrightarrow>
           \<not> (is_initialized (buffers m (b + j)) \<and> data_u8p (buffers m (b + j)) = p)"
  shows "find_loop l p index m = Some (b + i)"
  using assms(2,6)
proof (induction "i - unat index" arbitrary: index)
  case 0
  then have eq: "unat index = i" by simp
  with assms have lt: "index < pool_buffer_count (read_pool m l)"
    by (simp add: word_less_nat_alt)
  from assms eq show ?case
    by (simp add: find_loop_step [OF lt assms(1)])
next
  case (Suc d)
  then have less: "unat index < i" by simp
  with assms have lt: "index < pool_buffer_count (read_pool m l)"
    by (simp add: word_less_nat_alt)
  then have suc: "unat (index + 1) = Suc (unat index)" by (rule unat_index_Suc)
  from Suc.prems less have nomatch:
    "\<not> (is_initialized (buffers m (b + unat index)) \<and> data_u8p (buffers m (b + unat index)) = p)"
    by simp
  have "find_loop l p (index + 1) m = Some (b + i)"
  proof (rule Suc.hyps(1))
    show "d = i - unat (index + 1)" using Suc.hyps(2) suc by simp
    show "unat (index + 1) \<le> i" using less suc by simp
    show "\<forall>j. unat (index + 1) \<le> j \<and> j < i \<longrightarrow>
           \<not> (is_initialized (buffers m (b + j)) \<and> data_u8p (buffers m (b + j)) = p)"
      using Suc.prems suc by simp
  qed
  with nomatch show ?case
    by (auto simp add: find_loop_step [OF lt assms(1)])
qed

lemma find_loop_none:
  assumes "pool_buffer_array_sa (read_pool m l) = Some b"
    and "\<forall>j. unat index \<le> j \<and> j < unat (pool_buffer_count (read_pool m l)) \<longrightarrow>
           \<not> (is_initialized (buffers m (b + j)) \<and> data_u8p (buffers m (b + j)) = p)"
  shows "find_loop l p index m = None"
  using assms(2)
proof (induction "unat (pool_buffer_count (read_pool m l)) - unat index" arbitrary: index)
  case 0
  then have "\<not> index < pool_buffer_count (read_pool m l)"
    by (simp add: word_less_nat_alt)
  then show ?case by (rule find_loop_stop)
next
  case (Suc d)
  then have lt: "index < pool_buffer_count (read_pool m l)"
    by (simp add: word_less_nat_alt)
  then have suc: "unat (index + 1) = Suc (unat index)" by (rule unat_index_Suc)
  from Suc.prems Suc.hyps(2) have nomatch:
    "\<not> (is_initialized (buffers m (b + unat index)) \<and> data_u8p (buffers m (b + unat index)) = p)"
    by simp
  have "find_loop l p (index + 1) m = None"
  proof (rule Suc.hyps(1))
    show "d = unat (pool_buffer_count (read_pool m l)) - unat (index + 1)"
      using Suc.hyps(2) suc by simp
    show "\<forall>j. unat (index + 1) \<le> j \<and> j < unat (pool_buffer_count (read_pool m l)) \<longrightarrow>
           \<not> (is_initialized (buffers m (b + j)) \<and> data_u8p (buffers m (b + j)) = p)"
      using Suc.prems suc by simp
  qed
  with nomatch show ?case
    by (auto simp add: find_loop_step [OF lt assms(1)])
qed

text \<open>Either scan ends in one of two ways: at the first hit, or with no hit at all.\<close>

lemma first_hit:
  fixes P :: "nat \<Rightarrow> bool"
  assumes "\<exists>i<n. P i"
  obtains i where "i < n" and "P i" and "\<forall>j<i. \<not> P j"
proof -
  define k where "k = (LEAST i. i < n \<and> P i)"
  from assms obtain i0 where "i0 < n \<and> P i0" by blast
  then have a: "k < n \<and> P k" unfolding k_def by (rule LeastI)
  have b: "\<forall>j<k. \<not> P j"
  proof (intro allI impI)
    fix j assume jk: "j < k"
    then have "\<not> (j < n \<and> P j)" unfolding k_def by (rule not_less_Least)
    with a jk show "\<not> P j" by simp
  qed
  from a b show thesis by (intro that [of k]) simp_all
qed

lemma find_valid_cases:
  assumes "buffer_pool_is_valid m (Some l)" and "p \<noteq> None"
    and "pool_buffer_array_sa (read_pool m l) = Some b"
  obtains (miss) "buffer_pool_find (Some l) p m = None"
      and "\<forall>i<unat (pool_buffer_count (read_pool m l)).
             \<not> (is_initialized (buffers m (b + i)) \<and> data_u8p (buffers m (b + i)) = p)"
    | (hit) i where "i < unat (pool_buffer_count (read_pool m l))"
      and "is_initialized (buffers m (b + i))" and "data_u8p (buffers m (b + i)) = p"
      and "\<forall>j<i. \<not> (is_initialized (buffers m (b + j)) \<and> data_u8p (buffers m (b + j)) = p)"
      and "buffer_pool_find (Some l) p m = Some (b + i)"
proof (cases "\<exists>i<unat (pool_buffer_count (read_pool m l)).
             is_initialized (buffers m (b + i)) \<and> data_u8p (buffers m (b + i)) = p")
  case True
  then obtain i where i: "i < unat (pool_buffer_count (read_pool m l))"
      "is_initialized (buffers m (b + i)) \<and> data_u8p (buffers m (b + i)) = p"
      "\<forall>j<i. \<not> (is_initialized (buffers m (b + j)) \<and> data_u8p (buffers m (b + j)) = p)"
    by (rule first_hit)
  then have "find_loop l p 0 m = Some (b + i)"
    using assms(3) by (intro find_loop_first) simp_all
  with assms have "buffer_pool_find (Some l) p m = Some (b + i)"
    by (simp add: buffer_pool_find_def)
  with i show thesis by (intro hit [of i]) simp_all
next
  case False
  then have none: "\<forall>i<unat (pool_buffer_count (read_pool m l)).
             \<not> (is_initialized (buffers m (b + i)) \<and> data_u8p (buffers m (b + i)) = p)"
    by blast
  then have "find_loop l p 0 m = None"
    using assms(3) by (intro find_loop_none [where b = b]) simp_all
  with assms have "buffer_pool_find (Some l) p m = None"
    by (simp add: buffer_pool_find_def)
  then show thesis using none by (rule miss)
qed

lemma find_invalid:
  assumes "\<not> buffer_pool_is_valid m pool_sp \<or> p = None"
  shows "buffer_pool_find pool_sp p m = None"
  using assms by (auto simp add: buffer_pool_find_def)

lemma valid_poolD:
  assumes "buffer_pool_is_valid m pool_sp"
  obtains l b where "pool_sp = Some l" and "pool_is_initialized (read_pool m l)"
    and "pool_buffer_array_sa (read_pool m l) = Some b"
    and "0 < pool_buffer_count (read_pool m l)"
  using assms by (auto simp add: buffer_pool_is_valid_def split: option.splits)

lemma find_SomeD:
  assumes "buffer_pool_find pool_sp p m = Some a"
  shows "is_initialized (buffers m a) \<and> data_u8p (buffers m a) = p \<and> p \<noteq> None
    \<and> buffer_pool_is_valid m pool_sp"
proof -
  from assms have valid: "buffer_pool_is_valid m pool_sp" and p: "p \<noteq> None"
    by (auto simp add: buffer_pool_find_def split: if_splits)
  from valid obtain l b where l: "pool_sp = Some l"
      and b: "pool_buffer_array_sa (read_pool m l) = Some b"
    by (rule valid_poolD)
  from valid l have valid': "buffer_pool_is_valid m (Some l)" by simp
  show ?thesis
  proof (rule find_valid_cases [OF valid' p b])
    assume "buffer_pool_find (Some l) p m = None"
    with assms l show ?thesis by simp
  next
    fix i
    assume "is_initialized (buffers m (b + i))" and "data_u8p (buffers m (b + i)) = p"
      and "buffer_pool_find (Some l) p m = Some (b + i)"
    with assms l valid p show ?thesis by auto
  qed
qed

lemma read_pool_cong:
  assumes "pools m' = pools m" and "ctxs m' = ctxs m"
  shows "read_pool m' l = read_pool m l"
  using assms by (cases l) simp_all

lemma find_loop_cong:
  assumes "pools m' = pools m" and "ctxs m' = ctxs m"
    and "\<forall>x. data_u8p (buffers m' x) = data_u8p (buffers m x)
           \<and> is_initialized (buffers m' x) = is_initialized (buffers m x)"
  shows "find_loop l p index m' = find_loop l p index m"
proof -
  have rp: "read_pool m' l = read_pool m l"
    using assms(1,2) by (rule read_pool_cong)
  have valid: "buffer_is_valid m' q = buffer_is_valid m q" for q
    using assms(3) by (simp add: buffer_is_valid_def split: option.splits)
  show ?thesis
  proof (induction "unat (pool_buffer_count (read_pool m l)) - unat index" arbitrary: index)
    case 0
    then have "\<not> index < pool_buffer_count (read_pool m l)"
      by (simp add: word_less_nat_alt)
    then show ?case by (simp add: find_loop_stop rp)
  next
    case (Suc d)
    then have lt: "index < pool_buffer_count (read_pool m l)"
      by (simp add: word_less_nat_alt)
    then have suc: "unat (index + 1) = Suc (unat index)" by (rule unat_index_Suc)
    have ih: "find_loop l p (index + 1) m' = find_loop l p (index + 1) m"
      using Suc.hyps(2) suc by (intro Suc.hyps(1)) simp
    show ?case
      by (subst find_loop.simps, subst (2) find_loop.simps)
         (simp add: rp valid assms(3) ih Let_def)
  qed
qed

lemma find_set_available:
  "buffer_pool_find pool_sp p (set_available a v m) = buffer_pool_find pool_sp p m"
proof -
  have "find_loop l p 0 (set_available a v m) = find_loop l p 0 m" for l
    by (rule find_loop_cong) (simp_all add: set_available_def)
  moreover have "buffer_pool_is_valid (set_available a v m) pool_sp = buffer_pool_is_valid m pool_sp"
    by (simp add: buffer_pool_is_valid_def split: option.splits)
  ultimately show ?thesis
    by (simp add: buffer_pool_find_def)
qed

lemma acquire_valid_cases:
  assumes "buffer_pool_is_valid m (Some l)"
    and "pool_buffer_array_sa (read_pool m l) = Some b"
  obtains (empty) "buffer_pool_acquire (Some l) m = (None, m)"
      and "\<forall>i<unat (pool_buffer_count (read_pool m l)).
             \<not> (is_initialized (buffers m (b + i)) \<and> is_available (buffers m (b + i)))"
    | (hit) i where "i < unat (pool_buffer_count (read_pool m l))"
      and "is_initialized (buffers m (b + i))" and "is_available (buffers m (b + i))"
      and "\<forall>j<i. \<not> (is_initialized (buffers m (b + j)) \<and> is_available (buffers m (b + j)))"
      and "buffer_pool_acquire (Some l) m = (Some (b + i), set_available (b + i) False m)"
proof (cases "\<exists>i<unat (pool_buffer_count (read_pool m l)).
             is_initialized (buffers m (b + i)) \<and> is_available (buffers m (b + i))")
  case True
  then obtain i where i: "i < unat (pool_buffer_count (read_pool m l))"
      "is_initialized (buffers m (b + i)) \<and> is_available (buffers m (b + i))"
      "\<forall>j<i. \<not> (is_initialized (buffers m (b + j)) \<and> is_available (buffers m (b + j)))"
    by (rule first_hit)
  then have "acquire_loop l 0 m = (Some (b + i), set_available (b + i) False m)"
    using assms(2) by (intro acquire_loop_first) simp_all
  with assms have "buffer_pool_acquire (Some l) m = (Some (b + i), set_available (b + i) False m)"
    by (simp add: buffer_pool_acquire_def)
  with i show thesis by (intro hit [of i]) simp_all
next
  case False
  then have none: "\<forall>i<unat (pool_buffer_count (read_pool m l)).
             \<not> (is_initialized (buffers m (b + i)) \<and> is_available (buffers m (b + i)))"
    by blast
  then have "acquire_loop l 0 m = (None, m)"
    using assms(2) by (intro acquire_loop_none [where b = b]) simp_all
  with assms have "buffer_pool_acquire (Some l) m = (None, m)"
    by (simp add: buffer_pool_acquire_def)
  then show thesis using none by (rule empty)
qed

text \<open>Whatever the pool, an acquire either changes nothing or takes one free descriptor.\<close>

lemma acquire_cases:
  obtains (none) "buffer_pool_acquire pool_sp m = (None, m)"
    | (some) a where "is_initialized (buffers m a)" and "is_available (buffers m a)"
      and "buffer_pool_acquire pool_sp m = (Some a, set_available a False m)"
proof (cases "buffer_pool_is_valid m pool_sp")
  case False
  then have "buffer_pool_acquire pool_sp m = (None, m)"
    by (simp add: buffer_pool_acquire_def)
  then show thesis by (rule none)
next
  case True
  then obtain l b where l: "pool_sp = Some l"
      and b: "pool_buffer_array_sa (read_pool m l) = Some b"
    by (rule valid_poolD)
  from True l have valid': "buffer_pool_is_valid m (Some l)" by simp
  show thesis
  proof (rule acquire_valid_cases [OF valid' b])
    assume "buffer_pool_acquire (Some l) m = (None, m)"
    with l show thesis by (intro none) simp
  next
    fix i
    assume "is_initialized (buffers m (b + i))" and "is_available (buffers m (b + i))"
      and "buffer_pool_acquire (Some l) m = (Some (b + i), set_available (b + i) False m)"
    with l show thesis by (intro some [of "b + i"]) simp_all
  qed
qed

lemma acquire_SomeD:
  assumes "buffer_pool_acquire pool_sp m = (Some a, m')"
  shows "is_initialized (buffers m a) \<and> is_available (buffers m a)
    \<and> m' = set_available a False m"
  using assms by (cases pool_sp m rule: acquire_cases) auto

lemma mark_all_free_loop_frame:
  "sizes (mark_all_free_loop l index m) = sizes m
   \<and> pools (mark_all_free_loop l index m) = pools m
   \<and> ctxs (mark_all_free_loop l index m) = ctxs m
   \<and> (\<forall>x. data_u8p (buffers (mark_all_free_loop l index m) x) = data_u8p (buffers m x)
         \<and> capacity_bytes (buffers (mark_all_free_loop l index m) x) = capacity_bytes (buffers m x)
         \<and> is_initialized (buffers (mark_all_free_loop l index m) x) = is_initialized (buffers m x))"
proof (induction l index m rule: mark_all_free_loop.induct)
  case (1 l index m)
  show ?case
  proof (cases "index < pool_buffer_count (read_pool m l)")
    case False
    then have "mark_all_free_loop l index m = m"
      by (subst mark_all_free_loop.simps) simp
    then show ?thesis by simp
  next
    case True
    let ?cur = "elem_ptr (pool_buffer_array_sa (read_pool m l)) index"
    show ?thesis
    proof (cases "buffer_is_valid m ?cur")
      case valid: True
      have eq: "mark_all_free_loop l index m =
          mark_all_free_loop l (index + 1) (set_available (the ?cur) True m)"
        using True valid by (subst mark_all_free_loop.simps) (simp add: Let_def)
      show ?thesis
        unfolding eq using "1.IH"(1) [OF True refl valid]
        by (simp add: set_available_def)
    next
      case invalid: False
      have eq: "mark_all_free_loop l index m = mark_all_free_loop l (index + 1) m"
        using True invalid by (subst mark_all_free_loop.simps) (simp add: Let_def)
      show ?thesis
        unfolding eq using "1.IH"(2) [OF True refl invalid] by simp
    qed
  qed
qed

lemma release_miss:
  assumes "buffer_pool_find pool_sp p m = None"
  shows "buffer_pool_release_by_ptr pool_sp p m = (False, m)"
  using assms by (simp add: buffer_pool_release_by_ptr_def)

lemma release_hit:
  assumes "buffer_pool_find pool_sp p m = Some a"
  shows "buffer_pool_release_by_ptr pool_sp p m = (True, set_available a True m)"
proof -
  from assms have "is_initialized (buffers m a)"
    by (simp add: find_SomeD)
  with assms show ?thesis
    by (simp add: buffer_pool_release_by_ptr_def buffer_mark_free_def buffer_is_valid_def)
qed

section \<open>Evaluation at example memories\<close>

lemmas zero_defs = zero_memory_def zero_buffer_def zero_pool_def zero_ctx_def

lemmas eval_defs =
  buffer_pool_find_def buffer_pool_is_valid_def find_loop.simps elem_ptr_def
  buffer_is_valid_def Let_def buffer_pool_acquire_def acquire_loop.simps set_available_def
  buffer_pool_release_by_ptr_def buffer_mark_free_def

section \<open>Frames: what a call leaves alone\<close>

lemma same_binding_refl [simp]: "same_binding x x"
  by (simp add: same_binding_def)

lemma same_binding_set_available [simp]:
  "same_binding (buffers (set_available a v m) x) (buffers m x)"
  by (simp add: same_binding_def set_available_def)

lemma buffers_write_pool [simp]: "buffers (write_pool l p m) = buffers m"
  by (cases l) simp_all

lemma buffers_write_size:
  "buffers (write_size out v m) x =
     (if out = BufferCapacity x then (buffers m x)\<lparr>capacity_bytes := v\<rparr> else buffers m x)"
  by (cases out) auto

text \<open>
  \<^verbatim>\<open>buffer_data\<close> changes a descriptor only when its out-pointer addresses that descriptor's
  capacity, and then only the capacity.
\<close>

lemma buffers_buffer_data:
  "buffers (snd (buffer_data b out m)) x =
     (if out = Some (BufferCapacity x)
      then (buffers m x)\<lparr>capacity_bytes :=
             (if buffer_is_valid m b then capacity_bytes (buffers m (the b)) else 0)\<rparr>
      else buffers m x)"
  by (cases out) (simp_all add: buffer_data_def Let_def buffers_write_size)

lemma buffers_buffer_pool_init [simp]: "buffers (buffer_pool_init pl arr n m) = buffers m"
  by (simp add: buffer_pool_init_def split: option.splits)

lemma mark_free_binding: "same_binding (buffers (buffer_mark_free b m) x) (buffers m x)"
  by (simp add: buffer_mark_free_def)

lemma mark_in_use_binding: "same_binding (buffers (buffer_mark_in_use b m) x) (buffers m x)"
  by (simp add: buffer_mark_in_use_def)

lemma acquire_binding: "same_binding (buffers (snd (buffer_pool_acquire pl m)) x) (buffers m x)"
  by (cases pl m rule: acquire_cases) simp_all

lemma release_binding:
  "same_binding (buffers (snd (buffer_pool_release_by_ptr pl p m)) x) (buffers m x)"
  by (cases "buffer_pool_find pl p m") (simp_all add: release_miss release_hit)

lemma mark_all_free_binding:
  "same_binding (buffers (buffer_pool_mark_all_free pl m) x) (buffers m x)"
  using mark_all_free_loop_frame [of "the pl" 0 m]
  by (simp add: buffer_pool_mark_all_free_def same_binding_def)

lemma array_acquire_binding:
  "same_binding (buffers (snd (buffer_array_acquire c m)) x) (buffers m x)"
  by (simp add: buffer_array_acquire_def acquire_binding split: option.splits)

lemma array_release_binding:
  "same_binding (buffers (snd (buffer_array_release_by_ptr c p m)) x) (buffers m x)"
  by (simp add: buffer_array_release_by_ptr_def release_binding split: option.splits)

lemma exec_binding:
  assumes "\<not> inits_descriptors c" and "\<not> writes_capacity x c"
  shows "same_binding (buffers (snd (exec c m)) x) (buffers m x)"
  using assms
  by (cases c)
     (simp_all add: mark_free_binding mark_in_use_binding acquire_binding release_binding
        mark_all_free_binding array_acquire_binding array_release_binding
        buffers_buffer_data)

text \<open>No call but the two initializations changes a backing pointer or an initialized flag.\<close>

lemma exec_pointer:
  assumes "\<not> inits_descriptors c"
  shows "data_u8p (buffers (snd (exec c m)) x) = data_u8p (buffers m x)
    \<and> is_initialized (buffers (snd (exec c m)) x) = is_initialized (buffers m x)"
proof (cases "writes_capacity x c")
  case True
  then obtain b where "c = BufferData b (Some (BufferCapacity x))"
    by (cases c) simp_all
  then show ?thesis by (simp add: buffers_buffer_data)
next
  case False
  with assms have "same_binding (buffers (snd (exec c m)) x) (buffers m x)"
    by (rule exec_binding)
  then show ?thesis by (simp add: same_binding_def)
qed

lemma same_binding_trans:
  "same_binding x y \<Longrightarrow> same_binding y z \<Longrightarrow> same_binding x z"
  by (simp add: same_binding_def)

lemma run_binding:
  assumes "\<forall>c\<in>set cs. \<not> inits_descriptors c \<and> \<not> writes_capacity x c"
  shows "same_binding (buffers (run cs m) x) (buffers m x)"
  using assms
proof (induction cs arbitrary: m)
  case Nil
  show ?case by simp
next
  case (Cons c cs)
  then have "same_binding (buffers (run cs (snd (exec c m))) x) (buffers (snd (exec c m)) x)"
    by simp
  moreover from Cons.prems have "same_binding (buffers (snd (exec c m)) x) (buffers m x)"
    by (simp add: exec_binding)
  ultimately show ?case
    by (auto intro: same_binding_trans)
qed

lemma run_pointer:
  assumes "\<forall>c\<in>set cs. \<not> inits_descriptors c"
  shows "data_u8p (buffers (run cs m) x) = data_u8p (buffers m x)
    \<and> is_initialized (buffers (run cs m) x) = is_initialized (buffers m x)"
  using assms
proof (induction cs arbitrary: m)
  case Nil
  show ?case by simp
next
  case (Cons c cs)
  then have "data_u8p (buffers (run cs (snd (exec c m))) x) = data_u8p (buffers (snd (exec c m)) x)
    \<and> is_initialized (buffers (run cs (snd (exec c m))) x) =
        is_initialized (buffers (snd (exec c m)) x)"
    by simp
  moreover from Cons.prems have "data_u8p (buffers (snd (exec c m)) x) = data_u8p (buffers m x)
    \<and> is_initialized (buffers (snd (exec c m)) x) = is_initialized (buffers m x)"
    by (simp add: exec_pointer)
  ultimately show ?case by simp
qed

text \<open>A descriptor that is in use stays in use through every call that is not a free of it.\<close>

lemma exec_keeps_in_use:
  assumes "\<not> inits_descriptors c" and "\<not> frees (data_u8p (buffers m d)) d c"
    and "\<not> is_available (buffers m d)"
  shows "\<not> is_available (buffers (snd (exec c m)) d)"
proof -
  have acq: "\<not> is_available (buffers (snd (buffer_pool_acquire pl m)) d)" for pl
    using assms(3) by (cases pl m rule: acquire_cases) (simp_all add: buffers_set_available)
  have rel: "\<not> is_available (buffers (snd (buffer_pool_release_by_ptr pl q m)) d)"
    if "q \<noteq> data_u8p (buffers m d)" for pl q
  proof (cases "buffer_pool_find pl q m")
    case None
    with assms(3) show ?thesis by (simp add: release_miss)
  next
    case (Some x)
    then have "data_u8p (buffers m x) = q" by (simp add: find_SomeD)
    with that have "x \<noteq> d" by auto
    with Some assms(3) show ?thesis
      by (simp add: release_hit buffers_set_available)
  qed
  show ?thesis
  proof (cases c)
    case (BufferData b out)
    with assms(3) show ?thesis
      by (simp add: buffers_buffer_data)
  next
    case (BufferMarkFree b)
    with assms show ?thesis
      by (auto simp add: buffer_mark_free_def buffers_set_available buffer_is_valid_def
          split: option.splits)
  next
    case (BufferMarkInUse b)
    with assms show ?thesis
      by (auto simp add: buffer_mark_in_use_def buffers_set_available)
  next
    case (PoolAcquire pl)
    with acq show ?thesis by simp
  next
    case (PoolReleaseByPtr pl q)
    with assms(2) rel show ?thesis by simp
  next
    case (ArrayAcquire cp)
    with acq assms(3) show ?thesis
      by (simp add: buffer_array_acquire_def split: option.splits)
  next
    case (ArrayReleaseByPtr cp q)
    with assms(2,3) rel show ?thesis
      by (simp add: buffer_array_release_by_ptr_def split: option.splits)
  qed (use assms in simp_all)
qed

lemma run_keeps_in_use:
  assumes "\<forall>c\<in>set cs. \<not> inits_descriptors c \<and> \<not> frees (data_u8p (buffers m d)) d c"
    and "\<not> is_available (buffers m d)"
  shows "\<not> is_available (buffers (run cs m) d)"
  using assms
proof (induction cs arbitrary: m)
  case Nil
  then show ?case by simp
next
  case (Cons c cs)
  from Cons.prems have c: "\<not> inits_descriptors c" "\<not> frees (data_u8p (buffers m d)) d c"
    by simp_all
  then have ptr: "data_u8p (buffers (snd (exec c m)) d) = data_u8p (buffers m d)"
    by (simp add: exec_pointer)
  from c Cons.prems(2) have "\<not> is_available (buffers (snd (exec c m)) d)"
    by (rule exec_keeps_in_use)
  moreover from Cons.prems(1) ptr
  have "\<forall>c'\<in>set cs. \<not> inits_descriptors c'
      \<and> \<not> frees (data_u8p (buffers (snd (exec c m)) d)) d c'"
    by simp
  ultimately have "\<not> is_available (buffers (run cs (snd (exec c m))) d)"
    by (intro Cons.IH)
  then show ?case by simp
qed

lemma exec_acquire_SomeD:
  assumes "is_acquire c" and "fst (exec c m) = RetBuffer (Some d)"
  shows "is_available (buffers m d) \<and> \<not> is_available (buffers (snd (exec c m)) d)
    \<and> data_u8p (buffers (snd (exec c m)) d) = data_u8p (buffers m d)"
proof -
  have pool: "is_available (buffers m d) \<and> \<not> is_available (buffers (snd (buffer_pool_acquire pl m)) d)
      \<and> data_u8p (buffers (snd (buffer_pool_acquire pl m)) d) = data_u8p (buffers m d)"
    if "fst (buffer_pool_acquire pl m) = Some d" for pl
    using that by (cases pl m rule: acquire_cases) (auto simp add: buffers_set_available)
  show ?thesis
  proof (cases c)
    case (PoolAcquire pl)
    with assms(2) pool show ?thesis by simp
  next
    case (ArrayAcquire cp)
    with assms(2) pool [of "Some (CtxPool (the cp))"] show ?thesis
      by (auto simp add: buffer_array_acquire_def split: option.splits if_splits)
  qed (use assms(1) in simp_all)
qed

section \<open>The loop of \<^verbatim>\<open>buffer_array_ctx_init\<close>\<close>







section \<open>Consecutive acquires\<close>

lemma acquire_n_snoc:
  "acquire_n (Suc n) pl m =
     (fst (acquire_n n pl m) @ [fst (buffer_pool_acquire pl (snd (acquire_n n pl m)))],
      snd (buffer_pool_acquire pl (snd (acquire_n n pl m))))"
  by (induction n arbitrary: m) (simp_all add: Let_def)

lemma acquire_n_fill:
  assumes "pool_is_initialized (read_pool m l)"
    and "pool_buffer_array_sa (read_pool m l) = Some b"
    and "k \<le> unat (pool_buffer_count (read_pool m l))"
    and "\<forall>j<unat (pool_buffer_count (read_pool m l)). is_initialized (buffers m (b + j))"
    and "\<forall>j<unat (pool_buffer_count (read_pool m l)). is_available (buffers m (b + j)) = (k \<le> j)"
  shows "fst (acquire_n (Suc (unat (pool_buffer_count (read_pool m l)) - k)) (Some l) m) =
     map (\<lambda>i. Some (b + i)) [k..<unat (pool_buffer_count (read_pool m l))] @ [None]"
  using assms
proof (induction "unat (pool_buffer_count (read_pool m l)) - k" arbitrary: k m)
  case 0
  let ?N = "unat (pool_buffer_count (read_pool m l))"
  from 0 have k: "k = ?N" by simp
  have "buffer_pool_acquire (Some l) m = (None, m)"
  proof (cases "buffer_pool_is_valid m (Some l)")
    case False
    then show ?thesis by (simp add: buffer_pool_acquire_def)
  next
    case True
    show ?thesis
    proof (rule acquire_valid_cases [OF True "0.prems"(2)])
      assume "buffer_pool_acquire (Some l) m = (None, m)"
      then show ?thesis .
    next
      fix i assume "i < ?N" and "is_available (buffers m (b + i))"
      with "0.prems"(5) k show ?thesis by auto
    qed
  qed
  with k show ?case by simp
next
  case (Suc d)
  let ?N = "unat (pool_buffer_count (read_pool m l))"
  let ?m1 = "set_available (b + k) False m"
  from Suc.hyps(2) have k: "k < ?N" by simp
  then have "0 < pool_buffer_count (read_pool m l)"
    by (simp add: word_less_nat_alt)
  with Suc.prems have valid: "buffer_pool_is_valid m (Some l)"
    by (simp add: buffer_pool_is_valid_def)
  have "acquire_loop l 0 m = (Some (b + k), ?m1)"
    using Suc.prems k by (intro acquire_loop_first) simp_all
  with valid have first: "buffer_pool_acquire (Some l) m = (Some (b + k), ?m1)"
    by (simp add: buffer_pool_acquire_def)
  have rest: "fst (acquire_n (Suc (unat (pool_buffer_count (read_pool ?m1 l)) - Suc k)) (Some l) ?m1) =
     map (\<lambda>i. Some (b + i)) [Suc k..<unat (pool_buffer_count (read_pool ?m1 l))] @ [None]"
  proof (rule Suc.hyps(1))
    show "d = unat (pool_buffer_count (read_pool ?m1 l)) - Suc k"
      using Suc.hyps(2) by simp
    show "pool_is_initialized (read_pool ?m1 l)"
      and "pool_buffer_array_sa (read_pool ?m1 l) = Some b"
      using Suc.prems by simp_all
    show "Suc k \<le> unat (pool_buffer_count (read_pool ?m1 l))"
      using k by simp
    show "\<forall>j<unat (pool_buffer_count (read_pool ?m1 l)). is_initialized (buffers ?m1 (b + j))"
      using Suc.prems(4) by (simp add: buffers_set_available)
    show "\<forall>j<unat (pool_buffer_count (read_pool ?m1 l)).
        is_available (buffers ?m1 (b + j)) = (Suc k \<le> j)"
      using Suc.prems(5) by (auto simp add: buffers_set_available)
  qed
  have "Suc (?N - k) = Suc (Suc (?N - Suc k))"
    using k by simp
  moreover have "[k..<?N] = k # [Suc k..<?N]"
    using k by (simp add: upt_conv_Cons)
  ultimately show ?case
    using first rest by (simp add: Let_def)
qed

section \<open>The claims\<close>

text \<open>
  C1. On a pool that is present, initialized, has a descriptor array and a count above 0,
  \<^verbatim>\<open>buffer_pool_acquire\<close> returns the descriptor at the lowest index that is both
  initialized and available, and the memory it leaves differs only in that descriptor's
  availability, now false. It returns \<^verbatim>\<open>NULL\<close> and changes nothing when no descriptor of
  the array is both initialized and available, and when the pool is absent, uninitialized,
  has no array or has count 0.
\<close>

theorem acquire_lowest_free:
  fixes m :: memory and pool_sp :: pool_ptr and l :: pool_loc and b i :: nat
  shows
    "(pool_sp = Some l \<and> pool_is_initialized (read_pool m l)
        \<and> pool_buffer_array_sa (read_pool m l) = Some b
        \<and> 0 < pool_buffer_count (read_pool m l)
        \<and> i < unat (pool_buffer_count (read_pool m l))
        \<and> is_initialized (buffers m (b + i)) \<and> is_available (buffers m (b + i))
        \<and> (\<forall>j<i. \<not> (is_initialized (buffers m (b + j)) \<and> is_available (buffers m (b + j))))
      \<longrightarrow> buffer_pool_acquire pool_sp m =
            (Some (b + i),
             m\<lparr>buffers := (buffers m)(b + i := (buffers m (b + i))\<lparr>is_available := False\<rparr>)\<rparr>))
   \<and> (pool_sp = Some l \<and> pool_is_initialized (read_pool m l)
        \<and> pool_buffer_array_sa (read_pool m l) = Some b
        \<and> 0 < pool_buffer_count (read_pool m l)
        \<and> (\<forall>j<unat (pool_buffer_count (read_pool m l)).
              \<not> (is_initialized (buffers m (b + j)) \<and> is_available (buffers m (b + j))))
      \<longrightarrow> buffer_pool_acquire pool_sp m = (None, m))
   \<and> (pool_sp = None
        \<or> (pool_sp = Some l
            \<and> (\<not> pool_is_initialized (read_pool m l)
                \<or> pool_buffer_array_sa (read_pool m l) = None
                \<or> pool_buffer_count (read_pool m l) = 0))
      \<longrightarrow> buffer_pool_acquire pool_sp m = (None, m))"
proof (intro conjI impI)
  assume h: "pool_sp = Some l \<and> pool_is_initialized (read_pool m l)
        \<and> pool_buffer_array_sa (read_pool m l) = Some b
        \<and> 0 < pool_buffer_count (read_pool m l)
        \<and> i < unat (pool_buffer_count (read_pool m l))
        \<and> is_initialized (buffers m (b + i)) \<and> is_available (buffers m (b + i))
        \<and> (\<forall>j<i. \<not> (is_initialized (buffers m (b + j)) \<and> is_available (buffers m (b + j))))"
  then have valid: "buffer_pool_is_valid m pool_sp"
    by (simp add: buffer_pool_is_valid_def)
  have "acquire_loop l 0 m = (Some (b + i), set_available (b + i) False m)"
    using h by (intro acquire_loop_first) simp_all
  with valid h show "buffer_pool_acquire pool_sp m =
            (Some (b + i),
             m\<lparr>buffers := (buffers m)(b + i := (buffers m (b + i))\<lparr>is_available := False\<rparr>)\<rparr>)"
    by (simp add: buffer_pool_acquire_def set_available_def)
next
  assume h: "pool_sp = Some l \<and> pool_is_initialized (read_pool m l)
        \<and> pool_buffer_array_sa (read_pool m l) = Some b
        \<and> 0 < pool_buffer_count (read_pool m l)
        \<and> (\<forall>j<unat (pool_buffer_count (read_pool m l)).
              \<not> (is_initialized (buffers m (b + j)) \<and> is_available (buffers m (b + j))))"
  then have "acquire_loop l 0 m = (None, m)"
    by (intro acquire_loop_none [where b = b]) simp_all
  with h show "buffer_pool_acquire pool_sp m = (None, m)"
    by (simp add: buffer_pool_acquire_def)
next
  assume "pool_sp = None
        \<or> (pool_sp = Some l
            \<and> (\<not> pool_is_initialized (read_pool m l)
                \<or> pool_buffer_array_sa (read_pool m l) = None
                \<or> pool_buffer_count (read_pool m l) = 0))"
  then have "\<not> buffer_pool_is_valid m pool_sp"
    by (auto simp add: buffer_pool_is_valid_def)
  then show "buffer_pool_acquire pool_sp m = (None, m)"
    by (simp add: buffer_pool_acquire_def)
qed

theorem acquire_lowest_free_witness:
  "buffer_pool_acquire (Some (PoolObj 0)) pair_memory =
     (Some 1,
      pair_memory\<lparr>buffers := (buffers pair_memory)
        (1 := (buffers pair_memory 1)\<lparr>is_available := False\<rparr>)\<rparr>)
   \<and> buffer_pool_acquire None pair_memory = (None, pair_memory)"
  using acquire_lowest_free [of "Some (PoolObj 0)" "PoolObj 0" pair_memory 0 1]
    acquire_lowest_free [of None "PoolObj 0" pair_memory 0 0]
  by (simp add: pair_memory_def zero_defs)




text \<open>
  C3. On an initialized pool over \<open>N\<close> descriptors that are all initialized and available,
  \<open>N\<close> consecutive calls of \<^verbatim>\<open>buffer_pool_acquire\<close> return the \<open>N\<close> descriptors of the
  array in index order, so none of them is \<^verbatim>\<open>NULL\<close> and they are pairwise distinct, and the
  call after them returns \<^verbatim>\<open>NULL\<close>.
\<close>

theorem acquire_all_then_empty:
  fixes m :: memory and l :: pool_loc and b N :: nat
  assumes "pool_is_initialized (read_pool m l)"
    and "pool_buffer_array_sa (read_pool m l) = Some b"
    and "N = unat (pool_buffer_count (read_pool m l))"
    and "\<forall>j<N. is_initialized (buffers m (b + j)) \<and> is_available (buffers m (b + j))"
  shows "fst (acquire_n N (Some l) m) = map (\<lambda>i. Some (b + i)) [0..<N]
    \<and> length (fst (acquire_n N (Some l) m)) = N
    \<and> None \<notin> set (fst (acquire_n N (Some l) m))
    \<and> distinct (fst (acquire_n N (Some l) m))
    \<and> fst (buffer_pool_acquire (Some l) (snd (acquire_n N (Some l) m))) = None"
proof -
  have "fst (acquire_n (Suc (unat (pool_buffer_count (read_pool m l)) - 0)) (Some l) m) =
     map (\<lambda>i. Some (b + i)) [0..<unat (pool_buffer_count (read_pool m l))] @ [None]"
    using assms by (intro acquire_n_fill) simp_all
  with assms(3) have all: "fst (acquire_n (Suc N) (Some l) m) =
      map (\<lambda>i. Some (b + i)) [0..<N] @ [None]"
    by simp
  have len: "length (fst (acquire_n n (Some l) m)) = n" for n
    by (induction n arbitrary: m) (simp_all add: Let_def)
  from all have "fst (acquire_n N (Some l) m)
        @ [fst (buffer_pool_acquire (Some l) (snd (acquire_n N (Some l) m)))] =
      map (\<lambda>i. Some (b + i)) [0..<N] @ [None]"
    by (simp only: acquire_n_snoc fst_conv)
  then have results: "fst (acquire_n N (Some l) m) = map (\<lambda>i. Some (b + i)) [0..<N]"
    and last: "fst (buffer_pool_acquire (Some l) (snd (acquire_n N (Some l) m))) = None"
    by simp_all
  have "distinct (map (\<lambda>i. Some (b + i)) [0..<N])"
    by (simp add: distinct_map inj_on_def)
  with results last len show ?thesis
    by auto
qed

theorem acquire_all_then_empty_witness:
  "fst (acquire_n 4 (Some (CtxPool 0)) ring_memory) = [Some 0, Some 1, Some 2, Some 3]
   \<and> distinct (fst (acquire_n 4 (Some (CtxPool 0)) ring_memory))
   \<and> fst (buffer_pool_acquire (Some (CtxPool 0))
        (snd (acquire_n 4 (Some (CtxPool 0)) ring_memory))) = None"
proof -
  have pool: "pool_is_initialized (read_pool ring_memory (CtxPool 0))"
    "pool_buffer_array_sa (read_pool ring_memory (CtxPool 0)) = Some 0"
    "4 = unat (pool_buffer_count (read_pool ring_memory (CtxPool 0)))"
    by (simp_all add: ring_memory_def zero_defs)
  have free: "\<forall>j<4. is_initialized (buffers ring_memory (0 + j))
      \<and> is_available (buffers ring_memory (0 + j))"
    by (simp add: ring_memory_def zero_defs)
  have list: "map (\<lambda>i. Some (0 + i)) [0..<4] = [Some 0, Some 1, Some 2, Some (3::nat)]"
    by (simp add: upt_rec)
  from acquire_all_then_empty [OF pool free] list show ?thesis
    by simp
qed

text \<open>
  C4. \<^verbatim>\<open>buffer_pool_release_by_ptr\<close> returns true exactly when \<^verbatim>\<open>buffer_pool_find\<close>
  returns a descriptor; so it returns false, and changes nothing, when the pool is invalid,
  the pointer is \<^verbatim>\<open>NULL\<close>, or no initialized descriptor of the array has that backing
  pointer. On a true return the matched descriptor is available afterwards, whatever its
  state before. A second release of the same pointer right after returns true again and
  leaves the memory as the first one left it.
\<close>

theorem release_by_ptr_idempotent:
  fixes m :: memory and pool_sp :: pool_ptr and l :: pool_loc and p :: u8_ptr and a b :: nat
  shows
    "fst (buffer_pool_release_by_ptr pool_sp p m) = (buffer_pool_find pool_sp p m \<noteq> None)
   \<and> (pool_sp = None \<or> p = None
        \<or> (pool_sp = Some l
            \<and> (\<not> pool_is_initialized (read_pool m l)
                \<or> pool_buffer_array_sa (read_pool m l) = None
                \<or> pool_buffer_count (read_pool m l) = 0
                \<or> (pool_buffer_array_sa (read_pool m l) = Some b
                    \<and> (\<forall>i<unat (pool_buffer_count (read_pool m l)).
                          \<not> (is_initialized (buffers m (b + i))
                             \<and> data_u8p (buffers m (b + i)) = p)))))
      \<longrightarrow> buffer_pool_release_by_ptr pool_sp p m = (False, m))
   \<and> (buffer_pool_find pool_sp p m = Some a
      \<longrightarrow> buffer_pool_release_by_ptr pool_sp p m =
            (True, m\<lparr>buffers := (buffers m)(a := (buffers m a)\<lparr>is_available := True\<rparr>)\<rparr>)
          \<and> is_available (buffers (snd (buffer_pool_release_by_ptr pool_sp p m)) a)
          \<and> buffer_pool_release_by_ptr pool_sp p (snd (buffer_pool_release_by_ptr pool_sp p m)) =
            (True, snd (buffer_pool_release_by_ptr pool_sp p m)))
   \<and> (fst (buffer_pool_release_by_ptr pool_sp p m)
      \<longrightarrow> fst (buffer_pool_release_by_ptr pool_sp p
                 (snd (buffer_pool_release_by_ptr pool_sp p m))))"
proof -
  have iff: "fst (buffer_pool_release_by_ptr pool_sp p m) = (buffer_pool_find pool_sp p m \<noteq> None)"
    by (simp add: buffer_pool_release_by_ptr_def Let_def)
  have twice: "buffer_pool_release_by_ptr pool_sp p m = (True, set_available x True m)
      \<and> buffer_pool_release_by_ptr pool_sp p (set_available x True m) =
          (True, set_available x True m)"
    if hit: "buffer_pool_find pool_sp p m = Some x" for x
  proof -
    have "buffer_pool_find pool_sp p (set_available x True m) = Some x"
      using hit by (simp add: find_set_available)
    then have "buffer_pool_release_by_ptr pool_sp p (set_available x True m) =
        (True, set_available x True (set_available x True m))"
      by (rule release_hit)
    moreover have "set_available x True (set_available x True m) = set_available x True m"
      by (simp add: set_available_def)
    ultimately show ?thesis
      using release_hit [OF hit] by simp
  qed
  have invalid: "buffer_pool_release_by_ptr pool_sp p m = (False, m)"
    if h: "pool_sp = None \<or> p = None
        \<or> (pool_sp = Some l
            \<and> (\<not> pool_is_initialized (read_pool m l)
                \<or> pool_buffer_array_sa (read_pool m l) = None
                \<or> pool_buffer_count (read_pool m l) = 0
                \<or> (pool_buffer_array_sa (read_pool m l) = Some b
                    \<and> (\<forall>i<unat (pool_buffer_count (read_pool m l)).
                          \<not> (is_initialized (buffers m (b + i))
                             \<and> data_u8p (buffers m (b + i)) = p)))))"
  proof (cases "buffer_pool_find pool_sp p m")
    case None
    then show ?thesis by (rule release_miss)
  next
    case (Some x)
    then have x: "is_initialized (buffers m x)" "data_u8p (buffers m x) = p" "p \<noteq> None"
      "buffer_pool_is_valid m pool_sp"
      by (simp_all add: find_SomeD)
    with h have l: "pool_sp = Some l" and b: "pool_buffer_array_sa (read_pool m l) = Some b"
      and none: "\<forall>i<unat (pool_buffer_count (read_pool m l)).
                \<not> (is_initialized (buffers m (b + i)) \<and> data_u8p (buffers m (b + i)) = p)"
      by (auto simp add: buffer_pool_is_valid_def)
    from x(4) l have valid: "buffer_pool_is_valid m (Some l)" by simp
    have "buffer_pool_find (Some l) p m = None"
    proof (rule find_valid_cases [OF valid x(3) b])
      assume "buffer_pool_find (Some l) p m = None"
      then show ?thesis .
    next
      fix i
      assume "i < unat (pool_buffer_count (read_pool m l))"
        and "is_initialized (buffers m (b + i))" and "data_u8p (buffers m (b + i)) = p"
      with none show ?thesis by blast
    qed
    with Some l show ?thesis by simp
  qed
  show ?thesis
  proof (intro conjI impI)
    show "fst (buffer_pool_release_by_ptr pool_sp p m) = (buffer_pool_find pool_sp p m \<noteq> None)"
      by (rule iff)
  next
    assume "pool_sp = None \<or> p = None
        \<or> (pool_sp = Some l
            \<and> (\<not> pool_is_initialized (read_pool m l)
                \<or> pool_buffer_array_sa (read_pool m l) = None
                \<or> pool_buffer_count (read_pool m l) = 0
                \<or> (pool_buffer_array_sa (read_pool m l) = Some b
                    \<and> (\<forall>i<unat (pool_buffer_count (read_pool m l)).
                          \<not> (is_initialized (buffers m (b + i))
                             \<and> data_u8p (buffers m (b + i)) = p)))))"
    then show "buffer_pool_release_by_ptr pool_sp p m = (False, m)"
      by (rule invalid)
  next
    assume hit: "buffer_pool_find pool_sp p m = Some a"
    from twice [OF hit]
    show "buffer_pool_release_by_ptr pool_sp p m =
            (True, m\<lparr>buffers := (buffers m)(a := (buffers m a)\<lparr>is_available := True\<rparr>)\<rparr>)"
      by (simp add: set_available_def)
    from twice [OF hit]
    show "is_available (buffers (snd (buffer_pool_release_by_ptr pool_sp p m)) a)"
      by (simp add: set_available_def)
    from twice [OF hit]
    show "buffer_pool_release_by_ptr pool_sp p (snd (buffer_pool_release_by_ptr pool_sp p m)) =
            (True, snd (buffer_pool_release_by_ptr pool_sp p m))"
      by simp
  next
    assume "fst (buffer_pool_release_by_ptr pool_sp p m)"
    with iff obtain x where "buffer_pool_find pool_sp p m = Some x" by auto
    from twice [OF this]
    show "fst (buffer_pool_release_by_ptr pool_sp p
                 (snd (buffer_pool_release_by_ptr pool_sp p m)))"
      by simp
  qed
qed

theorem release_by_ptr_idempotent_witness:
  "buffer_pool_release_by_ptr (Some (PoolObj 0)) (Some 200) twin_memory =
     (True, twin_memory\<lparr>buffers := (buffers twin_memory)
        (1 := (buffers twin_memory 1)\<lparr>is_available := True\<rparr>)\<rparr>)
   \<and> fst (buffer_pool_release_by_ptr (Some (PoolObj 0)) (Some 200)
        (snd (buffer_pool_release_by_ptr (Some (PoolObj 0)) (Some 200) twin_memory)))
   \<and> is_available (buffers (snd (buffer_pool_release_by_ptr (Some (PoolObj 0)) (Some 200)
        (snd (buffer_pool_release_by_ptr (Some (PoolObj 0)) (Some 200) twin_memory)))) 1)
   \<and> buffer_pool_release_by_ptr (Some (PoolObj 0)) None twin_memory = (False, twin_memory)"
proof -
  have hit: "buffer_pool_find (Some (PoolObj 0)) (Some 200) twin_memory = Some 1"
    by (simp add: eval_defs twin_memory_def zero_defs)
  note at_hit =
    release_by_ptr_idempotent [of "Some (PoolObj 0)" "Some 200" twin_memory "PoolObj 0" 0 1]
  note at_null =
    release_by_ptr_idempotent [of "Some (PoolObj 0)" None twin_memory "PoolObj 0" 0 1]
  have third: "buffer_pool_release_by_ptr (Some (PoolObj 0)) (Some 200) twin_memory =
      (True, twin_memory\<lparr>buffers := (buffers twin_memory)
        (1 := (buffers twin_memory 1)\<lparr>is_available := True\<rparr>)\<rparr>)
    \<and> is_available (buffers (snd (buffer_pool_release_by_ptr (Some (PoolObj 0)) (Some 200)
        twin_memory)) 1)
    \<and> buffer_pool_release_by_ptr (Some (PoolObj 0)) (Some 200)
        (snd (buffer_pool_release_by_ptr (Some (PoolObj 0)) (Some 200) twin_memory)) =
      (True, snd (buffer_pool_release_by_ptr (Some (PoolObj 0)) (Some 200) twin_memory))"
    using at_hit [THEN conjunct2, THEN conjunct2, THEN conjunct1] hit by (rule mp)
  have null: "buffer_pool_release_by_ptr (Some (PoolObj 0)) None twin_memory = (False, twin_memory)"
    using at_null [THEN conjunct2, THEN conjunct1] by simp
  from third null show ?thesis by (elim conjE) simp
qed

text \<open>
  C5. A descriptor returned by an acquire (through the pool or through a context) is not
  available afterwards. Through any sequence of calls that neither re-initialize
  descriptors nor free this one (a \<^verbatim>\<open>buffer_mark_free\<close> on it, a release by its backing
  pointer, a \<^verbatim>\<open>buffer_pool_mark_all_free\<close>) it stays unavailable and no acquire returns
  it. Hence, when two acquires return the same descriptor and no call between them
  re-initializes descriptors, one of the calls between them is such a free.
\<close>

theorem no_double_acquire:
  fixes m :: memory and a1 a2 :: call and mid :: "call list" and d :: nat
  shows
    "(is_acquire a1 \<and> fst (exec a1 m) = RetBuffer (Some d)
      \<longrightarrow> \<not> is_available (buffers (snd (exec a1 m)) d))
   \<and> (is_acquire a1 \<and> fst (exec a1 m) = RetBuffer (Some d)
        \<and> (\<forall>c\<in>set mid. \<not> inits_descriptors c \<and> \<not> frees (data_u8p (buffers m d)) d c)
      \<longrightarrow> \<not> is_available (buffers (run mid (snd (exec a1 m))) d)
          \<and> (is_acquire a2
              \<longrightarrow> fst (exec a2 (run mid (snd (exec a1 m)))) \<noteq> RetBuffer (Some d)))
   \<and> (is_acquire a1 \<and> fst (exec a1 m) = RetBuffer (Some d)
        \<and> (\<forall>c\<in>set mid. \<not> inits_descriptors c)
        \<and> is_acquire a2 \<and> fst (exec a2 (run mid (snd (exec a1 m)))) = RetBuffer (Some d)
      \<longrightarrow> (\<exists>c\<in>set mid. frees (data_u8p (buffers m d)) d c))"
proof -
  have stays: "\<not> is_available (buffers (run mid (snd (exec a1 m))) d)"
    if first: "is_acquire a1" "fst (exec a1 m) = RetBuffer (Some d)"
      and quiet: "\<forall>c\<in>set mid. \<not> inits_descriptors c \<and> \<not> frees (data_u8p (buffers m d)) d c"
  proof -
    from first have taken: "\<not> is_available (buffers (snd (exec a1 m)) d)"
      and ptr: "data_u8p (buffers (snd (exec a1 m)) d) = data_u8p (buffers m d)"
      by (simp_all add: exec_acquire_SomeD)
    from quiet ptr
    have "\<forall>c\<in>set mid. \<not> inits_descriptors c
        \<and> \<not> frees (data_u8p (buffers (snd (exec a1 m)) d)) d c"
      by simp
    then show ?thesis using taken by (rule run_keeps_in_use)
  qed
  have blocked: "fst (exec a2 m') \<noteq> RetBuffer (Some d)"
    if "is_acquire a2" and "\<not> is_available (buffers m' d)" for m'
    using that exec_acquire_SomeD [of a2 m' d] by blast
  show ?thesis
  proof (intro conjI impI)
    assume "is_acquire a1 \<and> fst (exec a1 m) = RetBuffer (Some d)"
    then show "\<not> is_available (buffers (snd (exec a1 m)) d)"
      by (simp add: exec_acquire_SomeD)
  next
    assume h: "is_acquire a1 \<and> fst (exec a1 m) = RetBuffer (Some d)
        \<and> (\<forall>c\<in>set mid. \<not> inits_descriptors c \<and> \<not> frees (data_u8p (buffers m d)) d c)"
    then show "\<not> is_available (buffers (run mid (snd (exec a1 m))) d)"
      by (intro stays) simp_all
  next
    assume h: "is_acquire a1 \<and> fst (exec a1 m) = RetBuffer (Some d)
        \<and> (\<forall>c\<in>set mid. \<not> inits_descriptors c \<and> \<not> frees (data_u8p (buffers m d)) d c)"
      and a2: "is_acquire a2"
    from h have "\<not> is_available (buffers (run mid (snd (exec a1 m))) d)"
      by (intro stays) simp_all
    with a2 show "fst (exec a2 (run mid (snd (exec a1 m)))) \<noteq> RetBuffer (Some d)"
      by (rule blocked)
  next
    assume h: "is_acquire a1 \<and> fst (exec a1 m) = RetBuffer (Some d)
        \<and> (\<forall>c\<in>set mid. \<not> inits_descriptors c)
        \<and> is_acquire a2 \<and> fst (exec a2 (run mid (snd (exec a1 m)))) = RetBuffer (Some d)"
    show "\<exists>c\<in>set mid. frees (data_u8p (buffers m d)) d c"
    proof (rule ccontr)
      assume "\<not> (\<exists>c\<in>set mid. frees (data_u8p (buffers m d)) d c)"
      with h have "\<forall>c\<in>set mid. \<not> inits_descriptors c \<and> \<not> frees (data_u8p (buffers m d)) d c"
        by blast
      with h have "\<not> is_available (buffers (run mid (snd (exec a1 m))) d)"
        by (intro stays) simp_all
      with h have "fst (exec a2 (run mid (snd (exec a1 m)))) \<noteq> RetBuffer (Some d)"
        by (intro blocked) simp_all
      with h show False by simp
    qed
  qed
qed

theorem no_double_acquire_witness:
  "fst (exec (PoolAcquire (Some (PoolObj 0))) twin_memory) = RetBuffer (Some 0)
   \<and> \<not> is_available (buffers (snd (exec (PoolAcquire (Some (PoolObj 0))) twin_memory)) 0)
   \<and> fst (exec (PoolAcquire (Some (PoolObj 0)))
        (run [PoolFind (Some (PoolObj 0)) (Some 100), BufferMarkFree (Some 1)]
          (snd (exec (PoolAcquire (Some (PoolObj 0))) twin_memory)))) \<noteq> RetBuffer (Some 0)
   \<and> fst (exec (PoolAcquire (Some (PoolObj 0)))
        (run [PoolFind (Some (PoolObj 0)) (Some 100), PoolReleaseByPtr (Some (PoolObj 0)) (Some 100)]
          (snd (exec (PoolAcquire (Some (PoolObj 0))) twin_memory)))) = RetBuffer (Some 0)
   \<and> (\<exists>c\<in>set [PoolFind (Some (PoolObj 0)) (Some 100),
          PoolReleaseByPtr (Some (PoolObj 0)) (Some 100)].
        frees (data_u8p (buffers twin_memory 0)) 0 c)"
proof -
  have first: "fst (exec (PoolAcquire (Some (PoolObj 0))) twin_memory) = RetBuffer (Some 0)"
    by (simp add: eval_defs twin_memory_def zero_defs)
  have ptr: "data_u8p (buffers twin_memory 0) = Some 100"
    by (simp add: twin_memory_def zero_defs)
  have again: "fst (exec (PoolAcquire (Some (PoolObj 0)))
        (run [PoolFind (Some (PoolObj 0)) (Some 100), PoolReleaseByPtr (Some (PoolObj 0)) (Some 100)]
          (snd (exec (PoolAcquire (Some (PoolObj 0))) twin_memory)))) = RetBuffer (Some 0)"
    by (simp add: eval_defs twin_memory_def zero_defs)
  note quiet = no_double_acquire [of "PoolAcquire (Some (PoolObj 0))" twin_memory 0
      "[PoolFind (Some (PoolObj 0)) (Some 100), BufferMarkFree (Some 1)]"
      "PoolAcquire (Some (PoolObj 0))"]
  note freed = no_double_acquire [of "PoolAcquire (Some (PoolObj 0))" twin_memory 0
      "[PoolFind (Some (PoolObj 0)) (Some 100), PoolReleaseByPtr (Some (PoolObj 0)) (Some 100)]"
      "PoolAcquire (Some (PoolObj 0))"]
  have taken: "\<not> is_available (buffers (snd (exec (PoolAcquire (Some (PoolObj 0))) twin_memory)) 0)"
    using quiet [THEN conjunct1] first by simp
  have blocked: "fst (exec (PoolAcquire (Some (PoolObj 0)))
        (run [PoolFind (Some (PoolObj 0)) (Some 100), BufferMarkFree (Some 1)]
          (snd (exec (PoolAcquire (Some (PoolObj 0))) twin_memory)))) \<noteq> RetBuffer (Some 0)"
    using quiet [THEN conjunct2, THEN conjunct1] first ptr by simp
  have ex: "\<exists>c\<in>set [PoolFind (Some (PoolObj 0)) (Some 100),
          PoolReleaseByPtr (Some (PoolObj 0)) (Some 100)].
        frees (data_u8p (buffers twin_memory 0)) 0 c"
    using freed [THEN conjunct2, THEN conjunct2] first again by simp
  from first taken blocked again ex show ?thesis by (intro conjI)
qed

text \<open>
  C6. \<^verbatim>\<open>buffer_pool_find\<close> returns \<^verbatim>\<open>NULL\<close> exactly when the pool is invalid, the
  pointer is \<^verbatim>\<open>NULL\<close>, or no initialized descriptor of the array has that backing pointer.
  A descriptor it returns is an initialized element of the pool's array whose backing
  pointer equals the queried one. Its result does not depend on availability: setting the
  flag of any descriptor to any value leaves the result the same.
\<close>

theorem find_by_address:
  fixes m :: memory and pool_sp :: pool_ptr and l :: pool_loc and p :: u8_ptr
    and a a' b :: nat and v :: bool
  shows
    "(pool_sp = None \<or> p = None
        \<or> (pool_sp = Some l
            \<and> (\<not> pool_is_initialized (read_pool m l)
                \<or> pool_buffer_array_sa (read_pool m l) = None
                \<or> pool_buffer_count (read_pool m l) = 0))
      \<longrightarrow> buffer_pool_find pool_sp p m = None)
   \<and> (pool_sp = Some l \<and> pool_is_initialized (read_pool m l)
        \<and> pool_buffer_array_sa (read_pool m l) = Some b
        \<and> 0 < pool_buffer_count (read_pool m l) \<and> p \<noteq> None
      \<longrightarrow> (buffer_pool_find pool_sp p m = None) =
            (\<forall>i<unat (pool_buffer_count (read_pool m l)).
               \<not> (is_initialized (buffers m (b + i)) \<and> data_u8p (buffers m (b + i)) = p)))
   \<and> (buffer_pool_find pool_sp p m = Some a
      \<longrightarrow> is_initialized (buffers m a) \<and> data_u8p (buffers m a) = p)
   \<and> (pool_sp = Some l \<and> pool_buffer_array_sa (read_pool m l) = Some b
        \<and> buffer_pool_find pool_sp p m = Some a
      \<longrightarrow> (\<exists>i<unat (pool_buffer_count (read_pool m l)). a = b + i))
   \<and> buffer_pool_find pool_sp p
        (m\<lparr>buffers := (buffers m)(a' := (buffers m a')\<lparr>is_available := v\<rparr>)\<rparr>) =
      buffer_pool_find pool_sp p m"
proof (intro conjI impI)
  assume "pool_sp = None \<or> p = None
        \<or> (pool_sp = Some l
            \<and> (\<not> pool_is_initialized (read_pool m l)
                \<or> pool_buffer_array_sa (read_pool m l) = None
                \<or> pool_buffer_count (read_pool m l) = 0))"
  then have "\<not> buffer_pool_is_valid m pool_sp \<or> p = None"
    by (auto simp add: buffer_pool_is_valid_def)
  then show "buffer_pool_find pool_sp p m = None"
    by (rule find_invalid)
next
  assume h: "pool_sp = Some l \<and> pool_is_initialized (read_pool m l)
        \<and> pool_buffer_array_sa (read_pool m l) = Some b
        \<and> 0 < pool_buffer_count (read_pool m l) \<and> p \<noteq> None"
  then have valid: "buffer_pool_is_valid m (Some l)" and p: "p \<noteq> None"
    and b: "pool_buffer_array_sa (read_pool m l) = Some b"
    by (simp_all add: buffer_pool_is_valid_def)
  show "(buffer_pool_find pool_sp p m = None) =
            (\<forall>i<unat (pool_buffer_count (read_pool m l)).
               \<not> (is_initialized (buffers m (b + i)) \<and> data_u8p (buffers m (b + i)) = p))"
  proof (rule find_valid_cases [OF valid p b])
    assume "buffer_pool_find (Some l) p m = None"
      and "\<forall>i<unat (pool_buffer_count (read_pool m l)).
             \<not> (is_initialized (buffers m (b + i)) \<and> data_u8p (buffers m (b + i)) = p)"
    with h show ?thesis by simp
  next
    fix i
    assume "i < unat (pool_buffer_count (read_pool m l))"
      and "is_initialized (buffers m (b + i))" and "data_u8p (buffers m (b + i)) = p"
      and "buffer_pool_find (Some l) p m = Some (b + i)"
    with h show ?thesis by auto
  qed
next
  assume "buffer_pool_find pool_sp p m = Some a"
  then show "is_initialized (buffers m a)" and "data_u8p (buffers m a) = p"
    by (simp_all add: find_SomeD)
next
  assume h: "pool_sp = Some l \<and> pool_buffer_array_sa (read_pool m l) = Some b
        \<and> buffer_pool_find pool_sp p m = Some a"
  then have valid: "buffer_pool_is_valid m (Some l)" and p: "p \<noteq> None"
    and b: "pool_buffer_array_sa (read_pool m l) = Some b"
    using find_SomeD [of pool_sp p m a] by auto
  show "\<exists>i<unat (pool_buffer_count (read_pool m l)). a = b + i"
  proof (rule find_valid_cases [OF valid p b])
    assume "buffer_pool_find (Some l) p m = None"
    with h show ?thesis by auto
  next
    fix i
    assume "i < unat (pool_buffer_count (read_pool m l))"
      and "buffer_pool_find (Some l) p m = Some (b + i)"
    with h show ?thesis by auto
  qed
next
  show "buffer_pool_find pool_sp p
        (m\<lparr>buffers := (buffers m)(a' := (buffers m a')\<lparr>is_available := v\<rparr>)\<rparr>) =
      buffer_pool_find pool_sp p m"
    using find_set_available [of pool_sp p a' v m] by (simp add: set_available_def)
qed

theorem find_by_address_witness:
  "buffer_pool_find (Some (PoolObj 0)) (Some 200) twin_memory = Some 1
   \<and> \<not> is_available (buffers twin_memory 1)
   \<and> is_initialized (buffers twin_memory 1)
   \<and> data_u8p (buffers twin_memory 1) = Some 200
   \<and> buffer_pool_find (Some (PoolObj 0)) (Some 300) twin_memory = None
   \<and> buffer_pool_find None (Some 200) twin_memory = None
   \<and> buffer_pool_find (Some (PoolObj 0)) (Some 200)
        (twin_memory\<lparr>buffers := (buffers twin_memory)
           (1 := (buffers twin_memory 1)\<lparr>is_available := True\<rparr>)\<rparr>) = Some 1"
proof -
  have hit: "buffer_pool_find (Some (PoolObj 0)) (Some 200) twin_memory = Some 1"
    by (simp add: eval_defs twin_memory_def zero_defs)
  have miss: "\<forall>i<unat (3 :: size_t). \<not> (is_initialized (buffers twin_memory (0 + i))
      \<and> data_u8p (buffers twin_memory (0 + i)) = Some 300)"
    by (simp add: twin_memory_def zero_defs)
  show ?thesis
    using hit miss
      find_by_address [of "Some (PoolObj 0)" "Some 200" "PoolObj 0" twin_memory 0 1 1 True]
      find_by_address [of "Some (PoolObj 0)" "Some 300" "PoolObj 0" twin_memory 0 1 1 True]
      find_by_address [of None "Some 200" "PoolObj 0" twin_memory 0 1 1 True]
    by (simp add: twin_memory_def zero_defs)
qed

text \<open>
  C7. \<^verbatim>\<open>buffer_init\<close> on a present descriptor with a \<^verbatim>\<open>NULL\<close> backing pointer or a
  zero capacity leaves it initialized and not available, and a \<^verbatim>\<open>buffer_mark_free\<close>
  right after makes it available all the same, with the backing pointer and capacity as
  given.
\<close>

theorem init_without_backing:
  fixes m :: memory and a :: nat and memory_u8p :: u8_ptr and capacity :: size_t
  assumes "memory_u8p = None \<or> capacity = 0"
  shows "is_initialized (buffers (buffer_init (Some a) memory_u8p capacity m) a)
    \<and> \<not> is_available (buffers (buffer_init (Some a) memory_u8p capacity m) a)
    \<and> data_u8p (buffers (buffer_init (Some a) memory_u8p capacity m) a) = memory_u8p
    \<and> capacity_bytes (buffers (buffer_init (Some a) memory_u8p capacity m) a) = capacity
    \<and> buffers (buffer_mark_free (Some a) (buffer_init (Some a) memory_u8p capacity m)) a =
        \<lparr>data_u8p = memory_u8p, capacity_bytes = capacity, is_available = True,
         is_initialized = True\<rparr>"
  using assms
  by (auto simp add: buffer_init_def buffer_mark_free_def buffer_is_valid_def set_available_def)

theorem init_without_backing_witness:
  "\<not> is_available (buffers (buffer_init (Some 0) None 8 zero_memory) 0)
   \<and> buffers (buffer_mark_free (Some 0) (buffer_init (Some 0) None 8 zero_memory)) 0 =
        \<lparr>data_u8p = None, capacity_bytes = 8, is_available = True, is_initialized = True\<rparr>
   \<and> \<not> is_available (buffers (buffer_init (Some 0) (Some 100) 0 zero_memory) 0)
   \<and> buffers (buffer_mark_free (Some 0) (buffer_init (Some 0) (Some 100) 0 zero_memory)) 0 =
        \<lparr>data_u8p = Some 100, capacity_bytes = 0, is_available = True, is_initialized = True\<rparr>"
  using init_without_backing [of None 8 0 zero_memory]
    init_without_backing [of "Some 100" 0 0 zero_memory]
  by simp

text \<open>
  C8. On a pool pointer that is \<^verbatim>\<open>NULL\<close> or whose pool is not initialized, acquire, find,
  release by pointer and mark-all-free leave the whole memory (every descriptor, pool and
  context) as it was and return \<^verbatim>\<open>NULL\<close>, \<^verbatim>\<open>NULL\<close>, false and nothing. On a context
  pointer that is \<^verbatim>\<open>NULL\<close> or whose context is not initialized, the three forwarding calls
  do the same.
\<close>

theorem uninitialized_no_effect:
  fixes m :: memory and pool_sp :: pool_ptr and l :: pool_loc and ctx_sp :: ctx_ptr
    and c :: nat and p :: u8_ptr
  shows
    "(pool_sp = None \<or> (pool_sp = Some l \<and> \<not> pool_is_initialized (read_pool m l))
      \<longrightarrow> exec (PoolAcquire pool_sp) m = (RetBuffer None, m)
          \<and> exec (PoolFind pool_sp p) m = (RetBuffer None, m)
          \<and> exec (PoolReleaseByPtr pool_sp p) m = (RetBool False, m)
          \<and> exec (PoolMarkAllFree pool_sp) m = (RetVoid, m))
   \<and> (ctx_sp = None \<or> (ctx_sp = Some c \<and> \<not> ctx_is_initialized (ctxs m c))
      \<longrightarrow> exec (ArrayAcquire ctx_sp) m = (RetBuffer None, m)
          \<and> exec (ArrayFindByPtr ctx_sp p) m = (RetBuffer None, m)
          \<and> exec (ArrayReleaseByPtr ctx_sp p) m = (RetBool False, m))"
proof (intro conjI impI)
  assume "pool_sp = None \<or> (pool_sp = Some l \<and> \<not> pool_is_initialized (read_pool m l))"
  then have invalid: "\<not> buffer_pool_is_valid m pool_sp"
    by (auto simp add: buffer_pool_is_valid_def)
  then have find: "buffer_pool_find pool_sp p m = None"
    by (simp add: find_invalid)
  from invalid show "exec (PoolAcquire pool_sp) m = (RetBuffer None, m)"
    by (simp add: buffer_pool_acquire_def)
  from find show "exec (PoolFind pool_sp p) m = (RetBuffer None, m)"
    by simp
  from find show "exec (PoolReleaseByPtr pool_sp p) m = (RetBool False, m)"
    by (simp add: release_miss)
  from invalid show "exec (PoolMarkAllFree pool_sp) m = (RetVoid, m)"
    by (simp add: buffer_pool_mark_all_free_def)
next
  assume off: "ctx_sp = None \<or> (ctx_sp = Some c \<and> \<not> ctx_is_initialized (ctxs m c))"
  then show "exec (ArrayAcquire ctx_sp) m = (RetBuffer None, m)"
    by (auto simp add: buffer_array_acquire_def)
  from off show "exec (ArrayFindByPtr ctx_sp p) m = (RetBuffer None, m)"
    by (auto simp add: buffer_array_find_by_ptr_def)
  from off show "exec (ArrayReleaseByPtr ctx_sp p) m = (RetBool False, m)"
    by (auto simp add: buffer_array_release_by_ptr_def)
qed

theorem uninitialized_no_effect_witness:
  "exec (PoolAcquire (Some (PoolObj 0))) zero_memory = (RetBuffer None, zero_memory)
   \<and> exec (PoolFind (Some (PoolObj 0)) (Some 100)) zero_memory = (RetBuffer None, zero_memory)
   \<and> exec (PoolReleaseByPtr (Some (PoolObj 0)) (Some 100)) zero_memory
        = (RetBool False, zero_memory)
   \<and> exec (PoolMarkAllFree (Some (PoolObj 0))) zero_memory = (RetVoid, zero_memory)
   \<and> exec (ArrayAcquire (Some 0)) zero_memory = (RetBuffer None, zero_memory)
   \<and> exec (ArrayFindByPtr (Some 0) (Some 100)) zero_memory = (RetBuffer None, zero_memory)
   \<and> exec (ArrayReleaseByPtr (Some 0) (Some 100)) zero_memory = (RetBool False, zero_memory)
   \<and> exec (PoolAcquire None) twin_memory = (RetBuffer None, twin_memory)
   \<and> exec (ArrayReleaseByPtr None (Some 200)) twin_memory = (RetBool False, twin_memory)"
proof -
  have off: "\<not> pool_is_initialized (read_pool zero_memory (PoolObj 0))"
    "\<not> ctx_is_initialized (ctxs zero_memory 0)"
    by (simp_all add: zero_defs)
  from off
    uninitialized_no_effect [of "Some (PoolObj 0)" "PoolObj 0" zero_memory "Some 100" "Some 0" 0]
    uninitialized_no_effect [of None "PoolObj 0" twin_memory "Some 200" None 0]
  show ?thesis
    by simp
qed

text \<open>
  C9. Every call other than \<^verbatim>\<open>buffer_init\<close> and \<^verbatim>\<open>buffer_array_ctx_init\<close> (which calls
  it) leaves the backing pointer and the initialized flag of every descriptor as they were.
  It leaves the capacity as it was too, and changes nothing but the availability flag,
  unless it is a \<^verbatim>\<open>buffer_data\<close> whose out-pointer addresses that descriptor's own member
  \<^verbatim>\<open>capacity_bytes\<close>; that call stores there the capacity of the descriptor it was asked
  about, or 0 when that one is absent or not initialized, and changes nothing else of the
  descriptor. The same holds for any sequence of such calls.
\<close>

theorem binding_never_changes:
  fixes m :: memory and c :: call and cs :: "call list" and a :: nat and b :: buffer_ptr
  shows
    "(\<not> inits_descriptors c
      \<longrightarrow> data_u8p (buffers (snd (exec c m)) a) = data_u8p (buffers m a)
          \<and> is_initialized (buffers (snd (exec c m)) a) = is_initialized (buffers m a))
   \<and> (\<not> inits_descriptors c \<and> \<not> writes_capacity a c
      \<longrightarrow> capacity_bytes (buffers (snd (exec c m)) a) = capacity_bytes (buffers m a)
          \<and> (buffers (snd (exec c m)) a)\<lparr>is_available := is_available (buffers m a)\<rparr> =
              buffers m a)
   \<and> buffers (snd (exec (BufferData b (Some (BufferCapacity a))) m)) a =
        (buffers m a)\<lparr>capacity_bytes :=
           (if buffer_is_valid m b then capacity_bytes (buffers m (the b)) else 0)\<rparr>
   \<and> ((\<forall>c'\<in>set cs. \<not> inits_descriptors c')
      \<longrightarrow> data_u8p (buffers (run cs m) a) = data_u8p (buffers m a)
          \<and> is_initialized (buffers (run cs m) a) = is_initialized (buffers m a))
   \<and> ((\<forall>c'\<in>set cs. \<not> inits_descriptors c' \<and> \<not> writes_capacity a c')
      \<longrightarrow> capacity_bytes (buffers (run cs m) a) = capacity_bytes (buffers m a)
          \<and> (buffers (run cs m) a)\<lparr>is_available := is_available (buffers m a)\<rparr> =
              buffers m a)"
proof -
  have flag_only: "x\<lparr>is_available := is_available y\<rparr> = y" if "same_binding x y"
    for x y :: buffer_st
    using that by (simp add: same_binding_def)
  show ?thesis
  proof (intro conjI impI)
    assume "\<not> inits_descriptors c"
    then show "data_u8p (buffers (snd (exec c m)) a) = data_u8p (buffers m a)"
      and "is_initialized (buffers (snd (exec c m)) a) = is_initialized (buffers m a)"
      by (simp_all add: exec_pointer)
  next
    assume "\<not> inits_descriptors c \<and> \<not> writes_capacity a c"
    then have one: "same_binding (buffers (snd (exec c m)) a) (buffers m a)"
      by (simp add: exec_binding)
    then show "capacity_bytes (buffers (snd (exec c m)) a) = capacity_bytes (buffers m a)"
      by (simp add: same_binding_def)
    from one show "(buffers (snd (exec c m)) a)\<lparr>is_available := is_available (buffers m a)\<rparr> =
        buffers m a"
      by (rule flag_only)
  next
    show "buffers (snd (exec (BufferData b (Some (BufferCapacity a))) m)) a =
        (buffers m a)\<lparr>capacity_bytes :=
           (if buffer_is_valid m b then capacity_bytes (buffers m (the b)) else 0)\<rparr>"
      by (simp add: buffers_buffer_data)
  next
    assume "\<forall>c'\<in>set cs. \<not> inits_descriptors c'"
    then show "data_u8p (buffers (run cs m) a) = data_u8p (buffers m a)"
      and "is_initialized (buffers (run cs m) a) = is_initialized (buffers m a)"
      by (simp_all add: run_pointer)
  next
    assume "\<forall>c'\<in>set cs. \<not> inits_descriptors c' \<and> \<not> writes_capacity a c'"
    then have many: "same_binding (buffers (run cs m) a) (buffers m a)"
      by (rule run_binding)
    then show "capacity_bytes (buffers (run cs m) a) = capacity_bytes (buffers m a)"
      by (simp add: same_binding_def)
    from many show "(buffers (run cs m) a)\<lparr>is_available := is_available (buffers m a)\<rparr> =
        buffers m a"
      by (rule flag_only)
  qed
qed

theorem binding_never_changes_witness:
  "data_u8p (buffers (snd (exec (PoolAcquire (Some (PoolObj 0))) twin_memory)) 0) = Some 100
   \<and> capacity_bytes (buffers (snd (exec (PoolAcquire (Some (PoolObj 0))) twin_memory)) 0) = 8
   \<and> is_initialized (buffers (snd (exec (PoolAcquire (Some (PoolObj 0))) twin_memory)) 0)
   \<and> is_available (buffers twin_memory 0)
   \<and> \<not> is_available (buffers (snd (exec (PoolAcquire (Some (PoolObj 0))) twin_memory)) 0)
   \<and> data_u8p (buffers (snd (exec (BufferData (Some 5) (Some (BufferCapacity 0)))
        twin_memory)) 0) = Some 100
   \<and> capacity_bytes (buffers (run [PoolAcquire (Some (PoolObj 0)),
        BufferData (Some 0) (Some (SizeObj 0)), BufferData (Some 0) (Some (BufferCapacity 2)),
        BufferMarkFree (Some 1), PoolMarkAllFree (Some (PoolObj 0))] twin_memory) 1) = 8
   \<and> data_u8p (buffers (run [PoolAcquire (Some (PoolObj 0)),
        BufferData (Some 0) (Some (SizeObj 0)), BufferData (Some 0) (Some (BufferCapacity 2)),
        BufferMarkFree (Some 1), PoolMarkAllFree (Some (PoolObj 0))] twin_memory) 1) = Some 200"
proof -
  have flag: "\<not> is_available (buffers (snd (exec (PoolAcquire (Some (PoolObj 0))) twin_memory)) 0)"
    by (simp add: eval_defs twin_memory_def zero_defs)
  have start: "buffers twin_memory 0 = \<lparr>data_u8p = Some 100, capacity_bytes = 8,
      is_available = True, is_initialized = True\<rparr>"
    "data_u8p (buffers twin_memory 1) = Some 200"
    "capacity_bytes (buffers twin_memory 1) = 8"
    by (simp_all add: twin_memory_def zero_defs)
  show ?thesis
    using flag start
      binding_never_changes [of "PoolAcquire (Some (PoolObj 0))" twin_memory 0 None "[]"]
      binding_never_changes [of "BufferData (Some 5) (Some (BufferCapacity 0))" twin_memory 0
        None "[]"]
      binding_never_changes [of "PoolAcquire (Some (PoolObj 0))" twin_memory 1 None
        "[PoolAcquire (Some (PoolObj 0)),
          BufferData (Some 0) (Some (SizeObj 0)), BufferData (Some 0) (Some (BufferCapacity 2)),
          BufferMarkFree (Some 1), PoolMarkAllFree (Some (PoolObj 0))]"]
    by simp
qed

text \<open>
  Without the exception for \<^verbatim>\<open>buffer_data\<close> the statement fails: asked about the
  uninitialized descriptor 5 with the out-pointer \<^verbatim>\<open>&descriptor[0].capacity_bytes\<close>, it
  sets the capacity of the initialized descriptor 0 from 8 to 0.
\<close>

theorem data_clobbers_capacity_counterexample:
  "is_initialized (buffers twin_memory 0)
   \<and> capacity_bytes (buffers twin_memory 0) = 8
   \<and> \<not> inits_descriptors (BufferData (Some 5) (Some (BufferCapacity 0)))
   \<and> capacity_bytes
        (buffers (snd (exec (BufferData (Some 5) (Some (BufferCapacity 0))) twin_memory)) 0) = 0"
  by (simp add: buffers_buffer_data buffer_is_valid_def twin_memory_def zero_defs)

text \<open>
  C10. On a valid pool and a non-null pointer \<open>p\<close>, \<^verbatim>\<open>buffer_pool_find\<close> returns the
  initialized descriptor with backing pointer \<open>p\<close> at the lowest index, however many
  descriptors share that pointer.
\<close>

theorem find_lowest_match:
  fixes m :: memory and pool_sp :: pool_ptr and l :: pool_loc and p :: u8_ptr and b i :: nat
  assumes "pool_sp = Some l" and "pool_is_initialized (read_pool m l)"
    and "pool_buffer_array_sa (read_pool m l) = Some b"
    and "0 < pool_buffer_count (read_pool m l)"
    and "p \<noteq> None"
    and "i < unat (pool_buffer_count (read_pool m l))"
    and "is_initialized (buffers m (b + i))" and "data_u8p (buffers m (b + i)) = p"
    and "\<forall>j<i. \<not> (is_initialized (buffers m (b + j)) \<and> data_u8p (buffers m (b + j)) = p)"
  shows "buffer_pool_find pool_sp p m = Some (b + i)"
proof -
  from assms(1-4) have "buffer_pool_is_valid m pool_sp"
    by (simp add: buffer_pool_is_valid_def)
  moreover have "find_loop l p 0 m = Some (b + i)"
    using assms(3,6-9) by (intro find_loop_first) simp_all
  ultimately show ?thesis
    using assms(1,5) by (simp add: buffer_pool_find_def)
qed

theorem find_lowest_match_witness:
  "is_initialized (buffers twin_memory 1) \<and> data_u8p (buffers twin_memory 1) = Some 200
   \<and> is_initialized (buffers twin_memory 2) \<and> data_u8p (buffers twin_memory 2) = Some 200
   \<and> buffer_pool_find (Some (PoolObj 0)) (Some 200) twin_memory = Some 1"
  using find_lowest_match [of "Some (PoolObj 0)" "PoolObj 0" twin_memory 0 "Some 200" 1]
  by (simp add: twin_memory_def zero_defs)

end
